theory Spec2Isabelle
  imports Complex_Main
begin

section \<open>Arrays of the numerical libraries\<close>

text \<open>
  The scoring functions of the inference notebook work on NumPy arrays (\<open>calc_dice\<close>)
  and on TensorFlow tensors (\<open>dice_coef\<close>, \<open>dice_coef_loss\<close>, \<open>combined_dice_ce_loss\<close>).
  An array is its shape and its elements in row-major order. The elements of a
  floating-point array are real numbers, and the results of its sums, products, quotients
  and logarithms are taken exactly: the rounding of each floating-point operation is not
  modelled, so a theorem about a value holds of the program up to that rounding. What is
  modelled of the number types:
  \<^item> a floating-point result that is infinite or not a number (a division by zero, a
    logarithm of a non-positive number, the mean of no elements) is the value \<open>None\<close>; no
    later operation of these functions turns it into a finite number again;
  \<^item> a Python number that meets a tensor of 32-bit floats is converted to a 32-bit float
    first (\<open>to_float32\<close>): it is rounded, becomes zero when it is too small and infinite
    when it is too large;
  \<^item> a tensor of 64-bit floats does not combine with a constant of 32-bit floats: the
    library raises;
  \<^item> the product of two arrays of 8-bit unsigned integers is taken in 8 bits and wraps
    around (\<open>calc_dice_uint8\<close>).
  The source's names stand for the functions on the arrays they are written for:
  \<open>calc_dice\<close> on NumPy arrays of 64-bit floats, \<open>dice_coef\<close>,
  \<open>dice_coef_loss\<close> and \<open>combined_dice_ce_loss\<close> on tensors of 32-bit floats, the
  type of the tensors of the training loop.
\<close>

record ndarray =
  shape :: "nat list"
  data :: "real list"

definition well_shaped :: "ndarray \<Rightarrow> bool" where
  "well_shaped a = (length (data a) = prod_list (shape a))"

text \<open>
  The libraries raise where two shapes cannot be broadcast together, where a reduction
  axis is not an axis of the tensor (given twice, or not below the rank), and where the two
  operands of a tensor operation have different number types.
\<close>

datatype error = IncompatibleShapes | InvalidAxis | MismatchedTypes

definition and_then :: "error + 'a \<Rightarrow> ('a \<Rightarrow> error + 'b) \<Rightarrow> error + 'b" where
  "and_then m f = (case m of Inl e \<Rightarrow> Inl e | Inr x \<Rightarrow> f x)"

subsection \<open>Broadcasting\<close>

text \<open>
  Shapes are compared from the last axis backwards; two extents fit when they are equal or
  one of them is 1, and a missing leading axis counts as 1.
\<close>

fun broadcast_dims :: "nat list \<Rightarrow> nat list \<Rightarrow> nat list option" where
  "broadcast_dims [] ys = Some ys"
| "broadcast_dims (x # xs) [] = Some (x # xs)"
| "broadcast_dims (x # xs) (y # ys) =
     (if x = y \<or> y = 1 then map_option ((#) x) (broadcast_dims xs ys)
      else if x = 1 then map_option ((#) y) (broadcast_dims xs ys)
      else None)"

definition broadcast_shapes :: "nat list \<Rightarrow> nat list \<Rightarrow> nat list option" where
  "broadcast_shapes s t = map_option rev (broadcast_dims (rev s) (rev t))"

text \<open>\<open>chunks n k d\<close> cuts the first \<open>n\<close> blocks of \<open>k\<close> elements from \<open>d\<close>: with
  \<open>k\<close> the size of one entry along the leading axis, these are the entries along it.\<close>

fun chunks :: "nat \<Rightarrow> nat \<Rightarrow> 'a list \<Rightarrow> 'a list list" where
  "chunks 0 k d = []"
| "chunks (Suc n) k d = take k d # chunks n k (drop k d)"

text \<open>\<open>expand s t d\<close> repeats the elements \<open>d\<close> of an array of shape \<open>s\<close> along
  every axis of extent 1 until the shape is \<open>t\<close>.\<close>

fun expand :: "nat list \<Rightarrow> nat list \<Rightarrow> real list \<Rightarrow> real list" where
  "expand (s # ss) (t # ts) d =
     (if s = t then concat (map (expand ss ts) (chunks s (prod_list ss) d))
      else concat (replicate t (expand ss ts d)))"
| "expand [] ts d = d"
| "expand (s # ss) [] d = d"

definition pad_shape :: "nat \<Rightarrow> nat list \<Rightarrow> nat list" where
  "pad_shape n s = replicate (n - length s) 1 @ s"

definition broadcast_to :: "nat list \<Rightarrow> ndarray \<Rightarrow> real list" where
  "broadcast_to t a = expand (pad_shape (length t) (shape a)) t (data a)"

definition elementwise :: "(real \<Rightarrow> real \<Rightarrow> real) \<Rightarrow> ndarray \<Rightarrow> ndarray \<Rightarrow> error + ndarray" where
  "elementwise f a b =
     (case broadcast_shapes (shape a) (shape b) of
        None \<Rightarrow> Inl IncompatibleShapes
      | Some sh \<Rightarrow> Inr \<lparr>shape = sh, data = map2 f (broadcast_to sh a) (broadcast_to sh b)\<rparr>)"

text \<open>An array and a Python number: the number meets every element.\<close>

definition scalar_op :: "(real \<Rightarrow> real) \<Rightarrow> ndarray \<Rightarrow> ndarray" where
  "scalar_op f a = \<lparr>shape = shape a, data = map f (data a)\<rparr>"

subsection \<open>Number types\<close>

text \<open>
  The nearest 32-bit float of a real number (24 bits of precision, exponents from -126 to
  127, ties to the even neighbour); \<open>None\<close> is an infinity.
\<close>

definition round_half_even :: "real \<Rightarrow> int" where
  "round_half_even x =
     (if x - of_int \<lfloor>x\<rfloor> < 1 / 2 then \<lfloor>x\<rfloor>
      else if 1 / 2 < x - of_int \<lfloor>x\<rfloor> then \<lfloor>x\<rfloor> + 1
      else if even \<lfloor>x\<rfloor> then \<lfloor>x\<rfloor> else \<lfloor>x\<rfloor> + 1)"

definition to_float32 :: "real \<Rightarrow> real option" where
  "to_float32 x =
     (if x = 0 then Some 0
      else
        let e = max \<lfloor>log 2 \<bar>x\<bar>\<rfloor> (- 126);
            q = 2 powr (of_int e - 23);
            r = of_int (round_half_even (\<bar>x\<bar> / q)) * q
        in if 2 ^ 128 \<le> r then None else Some (sgn x * r))"

text \<open>The value of an unsigned integer result that is kept in \<open>w\<close> bits.\<close>

definition wrap :: "nat \<Rightarrow> real \<Rightarrow> real" where
  "wrap w x = of_int (\<lfloor>x\<rfloor> mod 2 ^ w)"

subsection \<open>Floating-point division and logarithm\<close>

definition fdiv :: "real \<Rightarrow> real \<Rightarrow> real option" where
  "fdiv x y = (if y = 0 then None else Some (x / y))"

definition flog :: "real \<Rightarrow> real option" where
  "flog x = (if x \<le> 0 then None else Some (ln x))"

subsection \<open>Reductions\<close>

text \<open>\<open>np.sum\<close> without an axis adds up every element of the array.\<close>

definition np_sum :: "ndarray \<Rightarrow> real" where
  "np_sum a = sum_list (data a)"

text \<open>\<open>vsum n ps\<close> adds the vectors \<open>ps\<close>, each of length \<open>n\<close>, position by position.\<close>

fun vsum :: "nat \<Rightarrow> real list list \<Rightarrow> real list" where
  "vsum n [] = replicate n 0"
| "vsum n (p # ps) = map2 (+) p (vsum n ps)"

text \<open>The shape that is left when the flagged axes are summed away.\<close>

fun kept :: "nat list \<Rightarrow> bool list \<Rightarrow> nat list" where
  "kept (s # ss) (r # rs) = (if r then kept ss rs else s # kept ss rs)"
| "kept [] rs = []"
| "kept (s # ss) [] = s # ss"

text \<open>\<open>reduce sh rs d\<close> sums the elements \<open>d\<close> of an array of shape \<open>sh\<close> over the
  axes flagged in \<open>rs\<close>.\<close>

fun reduce :: "nat list \<Rightarrow> bool list \<Rightarrow> real list \<Rightarrow> real list" where
  "reduce (s # ss) (r # rs) d =
     (if r then vsum (prod_list (kept ss rs)) (map (reduce ss rs) (chunks s (prod_list ss) d))
      else concat (map (reduce ss rs) (chunks s (prod_list ss) d)))"
| "reduce [] rs d = d"
| "reduce (s # ss) [] d = d"

definition axis_flags :: "nat \<Rightarrow> nat list \<Rightarrow> bool list" where
  "axis_flags rank axis = map (\<lambda>i. i \<in> set axis) [0..<rank]"

definition valid_axes :: "nat \<Rightarrow> nat list \<Rightarrow> bool" where
  "valid_axes rank axis = (distinct axis \<and> list_all (\<lambda>a. a < rank) axis)"

text \<open>\<open>tf.reduce_sum(x, axis=axis)\<close> for a tuple of axes, given as positions from the
  front as in the default \<open>(1, 2)\<close>.\<close>

definition reduce_sum :: "ndarray \<Rightarrow> nat list \<Rightarrow> error + ndarray" where
  "reduce_sum a axis =
     (if valid_axes (length (shape a)) axis
      then Inr \<lparr>shape = kept (shape a) (axis_flags (length (shape a)) axis),
               data = reduce (shape a) (axis_flags (length (shape a)) axis) (data a)\<rparr>
      else Inl InvalidAxis)"

text \<open>\<open>tf.reduce_mean(x)\<close> without an axis: the mean of every element, not a number when
  there is none.\<close>

definition reduce_mean :: "ndarray \<Rightarrow> real option" where
  "reduce_mean a = fdiv (sum_list (data a)) (real (length (data a)))"

section \<open>The scoring functions\<close>

text \<open>
  \<^verbatim>\<open>
  def calc_dice(y_true, y_pred, smooth=1.):
      numerator = 2.0 * np.sum(y_true * y_pred) + smooth
      denominator = np.sum(y_true) + np.sum(y_pred) + smooth
      coef = numerator / denominator
      return coef
  \<close>
\<close>

definition calc_dice :: "ndarray \<Rightarrow> ndarray \<Rightarrow> real \<Rightarrow> error + real option" where
  "calc_dice y_true y_pred smooth =
     and_then (elementwise (*) y_true y_pred) (\<lambda>tp.
       let numerator = 2 * np_sum tp + smooth;
           denominator = np_sum y_true + np_sum y_pred + smooth
       in Inr (fdiv numerator denominator))"

text \<open>
  The same lines on two arrays of 8-bit unsigned integers (elements from 0 to 255): the
  product of two such arrays is an array of the same type, so each product is kept modulo
  256; \<open>np.sum\<close> of such an array, and the sum of two such sums, is a 64-bit unsigned
  integer; the other operations are those of 64-bit floats.
\<close>

definition calc_dice_uint8 :: "ndarray \<Rightarrow> ndarray \<Rightarrow> real \<Rightarrow> error + real option" where
  "calc_dice_uint8 y_true y_pred smooth =
     and_then (elementwise (\<lambda>x y. wrap 8 (x * y)) y_true y_pred) (\<lambda>tp.
       let numerator = 2 * wrap 64 (np_sum tp) + smooth;
           denominator = wrap 64 (wrap 64 (np_sum y_true) + wrap 64 (np_sum y_pred)) + smooth
       in Inr (fdiv numerator denominator))"

text \<open>
  An elementwise quotient has an element that is infinite or not a number as soon as one
  divisor is zero.
\<close>

definition divide :: "ndarray \<Rightarrow> ndarray \<Rightarrow> error + ndarray option" where
  "divide a b =
     and_then (elementwise (/) a b) (\<lambda>c.
       Inr (if 0 \<in> set (broadcast_to (shape c) b) then None else Some c))"

text \<open>
  \<^verbatim>\<open>
  def dice_coef(y_true, y_pred, axis=(1, 2), smooth=1.):
      intersection = tf.reduce_sum(y_true * y_pred, axis=axis)
      union = tf.reduce_sum(y_true + y_pred, axis=axis)
      numerator = tf.constant(2.) * intersection + smooth
      denominator = union + smooth
      coef = numerator / denominator
      return tf.reduce_mean(coef)
  \<close>
\<close>

definition dice_coef :: "ndarray \<Rightarrow> ndarray \<Rightarrow> nat list \<Rightarrow> real \<Rightarrow> error + real option" where
  "dice_coef y_true y_pred axis smooth =
     and_then (elementwise (*) y_true y_pred) (\<lambda>tp.
     and_then (reduce_sum tp axis) (\<lambda>intersection.
     and_then (elementwise (+) y_true y_pred) (\<lambda>sm.
     and_then (reduce_sum sm axis) (\<lambda>union_sum.
       case to_float32 smooth of
         None \<Rightarrow> Inr None
       | Some smooth32 \<Rightarrow>
           let numerator = scalar_op (\<lambda>x. x + smooth32) (scalar_op (\<lambda>x. 2 * x) intersection);
               denominator = scalar_op (\<lambda>x. x + smooth32) union_sum
           in and_then (divide numerator denominator) (\<lambda>coef.
                Inr (Option.bind coef reduce_mean))))))"

text \<open>
  The same lines on tensors of 64-bit floats, the type NumPy gives an array by default:
  the two reductions are made, and the product of the 32-bit constant
  \<open>tf.constant(2.)\<close> and the 64-bit \<open>intersection\<close> raises.
\<close>

definition dice_coef_float64 :: "ndarray \<Rightarrow> ndarray \<Rightarrow> nat list \<Rightarrow> real \<Rightarrow> error + real option" where
  "dice_coef_float64 y_true y_pred axis smooth =
     and_then (elementwise (*) y_true y_pred) (\<lambda>tp.
     and_then (reduce_sum tp axis) (\<lambda>intersection.
     and_then (elementwise (+) y_true y_pred) (\<lambda>sm.
     and_then (reduce_sum sm axis) (\<lambda>union_sum.
       Inl MismatchedTypes))))"

text \<open>
  \<^verbatim>\<open>
  def dice_coef_loss(target, prediction, axis=(1, 2), smooth=1.):
      intersection = tf.reduce_sum(prediction * target, axis=axis)
      p = tf.reduce_sum(prediction, axis=axis)
      t = tf.reduce_sum(target, axis=axis)
      numerator = tf.reduce_mean(intersection + smooth)
      denominator = tf.reduce_mean(t + p + smooth)
      dice_loss = -tf.log(2.*numerator) + tf.log(denominator)
      return dice_loss
  \<close>
\<close>

definition dice_loss :: "real option \<Rightarrow> real option \<Rightarrow> real option" where
  "dice_loss numerator denominator =
     Option.bind numerator (\<lambda>n.
     Option.bind denominator (\<lambda>d.
     Option.bind (flog (2 * n)) (\<lambda>a.
     Option.bind (flog d) (\<lambda>b. Some (- a + b)))))"

definition dice_coef_loss :: "ndarray \<Rightarrow> ndarray \<Rightarrow> nat list \<Rightarrow> real \<Rightarrow> error + real option" where
  "dice_coef_loss target prediction axis smooth =
     and_then (elementwise (*) prediction target) (\<lambda>pt.
     and_then (reduce_sum pt axis) (\<lambda>intersection.
     and_then (reduce_sum prediction axis) (\<lambda>p.
     and_then (reduce_sum target axis) (\<lambda>t.
     and_then (elementwise (+) t p) (\<lambda>tp.
       Inr (Option.bind (to_float32 smooth) (\<lambda>smooth32.
         let numerator = reduce_mean (scalar_op (\<lambda>x. x + smooth32) intersection);
             denominator = reduce_mean (scalar_op (\<lambda>x. x + smooth32) tp)
         in dice_loss numerator denominator)))))))"

text \<open>
  \<^verbatim>\<open>
  def combined_dice_ce_loss(y_true, y_pred, axis=(1, 2), smooth=1., weight=0.9):
      return weight*dice_coef_loss(y_true, y_pred, axis, smooth) + \
          (1-weight)*K.losses.binary_crossentropy(y_true, y_pred)
  \<close>
  The cross-entropy is a function of the Keras library: it is a parameter here. The Dice
  loss is a tensor of no axes, which meets every element of the cross-entropy tensor. The
  two Python numbers \<open>weight\<close> and \<open>1-weight\<close> are converted to 32-bit floats where
  they meet the tensors.
\<close>

definition scalar_tensor :: "real \<Rightarrow> ndarray" where
  "scalar_tensor x = \<lparr>shape = [], data = [x]\<rparr>"

definition combined_dice_ce_loss ::
  "(ndarray \<Rightarrow> ndarray \<Rightarrow> error + ndarray) \<Rightarrow> ndarray \<Rightarrow> ndarray \<Rightarrow> nat list \<Rightarrow> real \<Rightarrow> real
     \<Rightarrow> error + ndarray option" where
  "combined_dice_ce_loss binary_crossentropy y_true y_pred axis smooth weight =
     and_then (dice_coef_loss y_true y_pred axis smooth) (\<lambda>dl.
     and_then (binary_crossentropy y_true y_pred) (\<lambda>ce.
       case (dl, to_float32 weight, to_float32 (1 - weight)) of
         (Some l, Some w, Some cw) \<Rightarrow>
           and_then (elementwise (+) (scalar_tensor (w * l)) (scalar_op (\<lambda>x. cw * x) ce))
                    (\<lambda>r. Inr (Some r))
       | _ \<Rightarrow> Inr None))"

text \<open>
  The score of \<open>predict\<close>, where \<open>pred_mask\<close> is the model's output for the image and
  \<open>msk\<close> the mask of the validation set:
  \<^verbatim>\<open>
      dice_score = calc_dice(pred_mask, msk)
  \<close>
\<close>

definition predict_dice_score :: "ndarray \<Rightarrow> ndarray \<Rightarrow> error + real option" where
  "predict_dice_score pred_mask msk = calc_dice pred_mask msk 1"

section \<open>The specification's formulas\<close>

text \<open>
  The specification speaks of the samples of a batch: entry \<open>b\<close> along the first axis,
  the sums of one sample over the reduction axes (which are counted with the batch axis, so
  they move down by one inside a sample), and means over the batch.
\<close>

definition sample :: "ndarray \<Rightarrow> nat \<Rightarrow> ndarray" where
  "sample x b =
     \<lparr>shape = tl (shape x),
      data = take (prod_list (tl (shape x))) (drop (b * prod_list (tl (shape x))) (data x))\<rparr>"

definition hadamard :: "ndarray \<Rightarrow> ndarray \<Rightarrow> ndarray" where
  "hadamard a b = \<lparr>shape = shape a, data = map2 (*) (data a) (data b)\<rparr>"

definition pointwise_sum :: "ndarray \<Rightarrow> ndarray \<Rightarrow> ndarray" where
  "pointwise_sum a b = \<lparr>shape = shape a, data = map2 (+) (data a) (data b)\<rparr>"

definition sample_sums :: "ndarray \<Rightarrow> nat list \<Rightarrow> real list" where
  "sample_sums x axis =
     reduce (shape x) (axis_flags (length (shape x)) (map (\<lambda>a. a - 1) axis)) (data x)"

definition per_sample_sums :: "ndarray \<Rightarrow> nat list \<Rightarrow> real list" where
  "per_sample_sums x axis = concat (map (\<lambda>b. sample_sums (sample x b) axis) [0..<hd (shape x)])"

definition batch_mean :: "real list \<Rightarrow> real option" where
  "batch_mean xs = fdiv (sum_list xs) (real (length xs))"

definition spec_overlap_loss :: "ndarray \<Rightarrow> ndarray \<Rightarrow> nat list \<Rightarrow> real \<Rightarrow> real option" where
  "spec_overlap_loss ground_truth prediction axis smoothing =
     Option.bind (batch_mean (per_sample_sums (hadamard ground_truth prediction) axis)) (\<lambda>intersection.
     Option.bind (batch_mean (per_sample_sums prediction axis)) (\<lambda>p_total.
     Option.bind (batch_mean (per_sample_sums ground_truth axis)) (\<lambda>t_total.
     Option.bind (flog (2 * (intersection + smoothing))) (\<lambda>a.
     Option.bind (flog (t_total + p_total + smoothing)) (\<lambda>b. Some (- a + b))))))"

definition sample_scores :: "ndarray \<Rightarrow> ndarray \<Rightarrow> nat list \<Rightarrow> real \<Rightarrow> real option list" where
  "sample_scores ground_truth prediction axis smoothing =
     map2 (\<lambda>intersection union_sum. fdiv (2 * intersection + smoothing) (union_sum + smoothing))
          (sample_sums (hadamard ground_truth prediction) axis)
          (sample_sums (pointwise_sum ground_truth prediction) axis)"

definition per_sample_scores :: "ndarray \<Rightarrow> ndarray \<Rightarrow> nat list \<Rightarrow> real \<Rightarrow> real option list" where
  "per_sample_scores ground_truth prediction axis smoothing =
     concat (map (\<lambda>b. sample_scores (sample ground_truth b) (sample prediction b) axis smoothing)
                 [0..<hd (shape ground_truth)])"

definition mean_score :: "real option list \<Rightarrow> real option" where
  "mean_score xs =
     (if None \<in> set xs then None else fdiv (sum_list (map the xs)) (real (length xs)))"

definition spec_soft_overlap_score :: "ndarray \<Rightarrow> ndarray \<Rightarrow> nat list \<Rightarrow> real \<Rightarrow> real option" where
  "spec_soft_overlap_score ground_truth prediction axis smoothing =
     mean_score (per_sample_scores ground_truth prediction axis smoothing)"

section \<open>Example inputs\<close>

text \<open>A 4 by 4 mask with a 2 by 2 foreground square, and the empty mask of that shape.\<close>

definition square_mask :: ndarray where
  "square_mask = \<lparr>shape = [4, 4], data = [0,0,0,0, 0,1,1,0, 0,1,1,0, 0,0,0,0]\<rparr>"

definition zero_mask :: ndarray where
  "zero_mask = \<lparr>shape = [4, 4], data = [0,0,0,0, 0,0,0,0, 0,0,0,0, 0,0,0,0]\<rparr>"

text \<open>A batch of two 2 by 2 samples: the first has two foreground pixels, the second none.\<close>

definition pair_batch :: ndarray where
  "pair_batch = \<lparr>shape = [2, 2, 2], data = [1,1,0,0, 0,0,0,0]\<rparr>"

text \<open>Two pairs of batches of two 2 by 2 samples. In the first pair the prediction is empty
  and the ground truth is empty in one sample and full in the other; in the second pair
  truth and prediction overlap in one pixel of each sample.\<close>

definition empty_full_truth :: ndarray where
  "empty_full_truth = \<lparr>shape = [2, 2, 2], data = [0,0,0,0, 1,1,1,1]\<rparr>"

definition empty_pred :: ndarray where
  "empty_pred = \<lparr>shape = [2, 2, 2], data = [0,0,0,0, 0,0,0,0]\<rparr>"

definition partial_truth :: ndarray where
  "partial_truth = \<lparr>shape = [2, 2, 2], data = [1,1,0,0, 1,1,1,0]\<rparr>"

definition partial_pred :: ndarray where
  "partial_pred = \<lparr>shape = [2, 2, 2], data = [1,0,1,0, 1,0,0,1]\<rparr>"



text \<open>Vectors of ones of length 1, 2 and 3.\<close>

definition one_one :: ndarray where
  "one_one = \<lparr>shape = [1], data = [1]\<rparr>"

definition two_ones :: ndarray where
  "two_ones = \<lparr>shape = [2], data = [1, 1]\<rparr>"

definition three_ones :: ndarray where
  "three_ones = \<lparr>shape = [3], data = [1, 1, 1]\<rparr>"

text \<open>A stand-in for the cross-entropy of the library where an example needs one: it returns
  the same 2 by 2 array for all inputs.\<close>

definition fixed_crossentropy :: "ndarray \<Rightarrow> ndarray \<Rightarrow> error + ndarray" where
  "fixed_crossentropy y_true y_pred = Inr \<lparr>shape = [2, 2], data = [1/2, 1/4, 1/4, 1/2]\<rparr>"

text \<open>Arrays of 8-bit unsigned integers.\<close>

definition sixteen :: ndarray where
  "sixteen = \<lparr>shape = [1], data = [16]\<rparr>"

definition bytes_a :: ndarray where
  "bytes_a = \<lparr>shape = [2], data = [200, 3]\<rparr>"

definition bytes_b :: ndarray where
  "bytes_b = \<lparr>shape = [2], data = [2, 100]\<rparr>"

section \<open>Facts about the number types\<close>

lemma to_float32_zero: "to_float32 0 = Some 0"
  by (simp add: to_float32_def)

lemma round_half_even_of_int: "round_half_even (of_int n) = n"
  by (simp add: round_half_even_def)

lemma to_float32_one: "to_float32 1 = Some 1"
proof -
  have "(1::real) / 2 powr (- 23) = of_int 8388608"
    by (simp add: powr_minus divide_simps)
  then have "round_half_even (1 / 2 powr (- 23)) = 8388608"
    by (simp only: round_half_even_of_int)
  then show ?thesis
    by (simp add: to_float32_def powr_minus)
qed


lemma round_half_even_small: "0 \<le> y \<Longrightarrow> y \<le> 1 / 2 \<Longrightarrow> round_half_even y = 0"
proof -
  assume y: "0 \<le> y" "y \<le> 1 / 2"
  then have "\<lfloor>y\<rfloor> = 0" by (simp add: floor_eq_iff)
  then show ?thesis using y by (simp add: round_half_even_def)
qed

lemma to_float32_tiny:
  assumes "0 < x" and "x \<le> 2 powr (- 150)"
  shows "to_float32 x = Some 0"
proof -
  have "log 2 x \<le> log 2 (2 powr (- 150))"
    using assms by (subst log_le_cancel_iff) simp_all
  then have "log 2 x \<le> - 150" by simp
  then have "\<lfloor>log 2 x\<rfloor> \<le> - 150" by (simp add: floor_le_iff)
  then have e: "max \<lfloor>log 2 x\<rfloor> (- 126) = - 126"
    by simp
  have "x / 2 powr (- 149) \<le> 2 powr (- 150) / 2 powr (- 149)"
    using assms(2) by (simp add: divide_right_mono)
  also have "2 powr (- 150) / 2 powr (- 149) = (1 / 2 :: real)"
    by (simp add: powr_diff [symmetric] powr_minus)
  finally have "x / 2 powr (- 149) \<le> 1 / 2" .
  moreover have "0 \<le> x / 2 powr (- 149)" using assms(1) by simp
  ultimately have r: "round_half_even (x / 2 powr (- 149)) = 0"
    by (rule round_half_even_small [rotated])
  have x: "\<bar>x\<bar> = x" "x \<noteq> 0" using assms(1) by simp_all
  have q: "real_of_int (- 126) - 23 = - 149" by simp
  show ?thesis
    unfolding to_float32_def Let_def x(1) e q using r x(2) by simp
qed

lemma to_float32_underflow: "to_float32 (1 / 2 ^ 200) = Some 0"
proof (rule to_float32_tiny)
  show "(0::real) < 1 / 2 ^ 200" by simp
  have "(2::real) powr (- 150) = 1 / 2 ^ 150"
    by (simp add: powr_minus divide_simps)
  moreover have "(1::real) / 2 ^ 200 \<le> 1 / 2 ^ 150" by simp
  ultimately show "(1::real) / 2 ^ 200 \<le> 2 powr (- 150)" by simp
qed

lemma round_half_even_bounds:
  "of_int (round_half_even y) \<le> y + 1 / 2" "y - 1 / 2 \<le> of_int (round_half_even y)"
  unfolding round_half_even_def by (auto simp: not_less) linarith+

lemma to_float32_normal:
  assumes lo: "1 / 2 ^ 100 \<le> x" and hi: "x \<le> 2 ^ 100"
  shows "\<exists>y. to_float32 x = Some y \<and> 0 < y"
proof -
  have "(0::real) < 1 / 2 ^ 100" by simp
  then have pos: "0 < x" using lo by linarith
  define e where "e = \<lfloor>log 2 x\<rfloor>"
  have "log 2 (1 / 2 ^ 100) \<le> log 2 x" using lo pos by (simp del: log_divide_pos)
  moreover have l1: "log 2 (1 / 2 ^ 100 :: real) = - 100"
  proof -
    have "log 2 (1 / 2 ^ 100 :: real) = log 2 1 - log 2 (2 ^ 100)"
      by (rule log_divide_pos) simp_all
    then show ?thesis by (simp only: log_one log_pow_cancel)
  qed
  ultimately have e_lo: "- 100 \<le> e" unfolding e_def by (simp add: le_floor_iff)
  have "log 2 x \<le> log 2 (2 ^ 100)" using hi pos by simp
  then have "log 2 x \<le> 100" by (simp only: log_pow_cancel)
  then have e_hi: "e \<le> 100" unfolding e_def by (simp add: floor_le_iff)
  have m: "max e (- 126) = e" using e_lo by simp
  define q :: real where "q = 2 powr (of_int e - 23)"
  have q: "0 < q" unfolding q_def by simp
  have pe: "2 powr (of_int e) = 2 powr 23 * q"
    unfolding q_def powr_add [symmetric] by simp
  have pe1: "2 powr (of_int e + 1) = 2 powr 24 * q"
    unfolding q_def powr_add [symmetric] by (simp add: add.commute)
  have "2 powr (of_int e) \<le> x"
    using pos unfolding e_def by (simp add: powr_le_iff)
  then have "2 powr 23 * q \<le> x" unfolding pe .
  then have "2 powr 23 \<le> x / q" using q by (simp only: pos_le_divide_eq)
  then have low: "8388608 \<le> x / q" by simp
  have "x < 2 powr (of_int e + 1)"
    using pos unfolding e_def by (simp add: less_powr_iff)
  then have "x < 2 powr 24 * q" unfolding pe1 .
  then have "x / q < 2 powr 24" using q by (simp only: pos_divide_less_eq)
  then have up: "x / q < 16777216" by simp
  define k where "k = round_half_even (x / q)"
  have "0 < real_of_int k"
    using round_half_even_bounds(2) [of "x / q"] low unfolding k_def by linarith
  then have k1: "0 < k" by simp
  have "real_of_int k \<le> x / q + 1 / 2"
    using round_half_even_bounds(1) [of "x / q"] unfolding k_def .
  then have "real_of_int k < 16777217" using up by linarith
  then have "k < 16777217" by linarith
  then have k2: "real_of_int k \<le> 2 powr 24" by simp
  have "of_int k * q \<le> 2 powr 24 * q" using k2 q by (simp only: mult_le_cancel_right_pos)
  also have "\<dots> = 2 powr (of_int e + 1)" unfolding pe1 ..
  also have "\<dots> \<le> 2 powr 101" by (rule powr_mono) (use e_hi in simp_all)
  also have "\<dots> < 2 powr 128" by simp
  finally have "of_int k * q < 2 powr 128" .
  then have r: "of_int k * q < 2 ^ 128" by simp
  have rp: "0 < of_int k * q" using k1 q by simp
  have ax: "\<bar>x\<bar> = x" and sx: "sgn x = 1" using pos by simp_all
  have ne: "x \<noteq> 0" using pos by simp
  show ?thesis
    unfolding to_float32_def Let_def ax sx e_def [symmetric] m q_def [symmetric] k_def [symmetric]
    using ne r rp by simp
qed

section \<open>Facts about the array operations\<close>

lemma length_chunks: "length (chunks n k d) = n"
  by (induction n arbitrary: d) simp_all

lemma concat_chunks: "length d = n * k \<Longrightarrow> concat (chunks n k d) = d"
  by (induction n arbitrary: d) simp_all

lemma chunks_length: "length d = n * k \<Longrightarrow> c \<in> set (chunks n k d) \<Longrightarrow> length c = k"
proof (induction n arbitrary: d)
  case 0
  then show ?case by simp
next
  case (Suc n)
  have len: "length (drop k d) = n * k" using Suc.prems(1) by simp
  have "c = take k d \<or> c \<in> set (chunks n k (drop k d))" using Suc.prems(2) by simp
  then show ?case
  proof
    assume "c = take k d"
    then show ?thesis using Suc.prems(1) by simp
  next
    assume "c \<in> set (chunks n k (drop k d))"
    then show ?thesis using Suc.IH [OF len] by simp
  qed
qed

lemma expand_same: "length d = prod_list s \<Longrightarrow> expand s s d = d"
proof (induction s arbitrary: d)
  case Nil
  then show ?case by simp
next
  case (Cons x xs)
  have len: "length d = x * prod_list xs" using Cons.prems by simp
  have "map (expand xs xs) (chunks x (prod_list xs) d) = chunks x (prod_list xs) d"
    by (intro map_idI Cons.IH) (rule chunks_length [OF len])
  then show ?case using Cons.prems by (simp add: concat_chunks)
qed

lemma broadcast_dims_same: "broadcast_dims s s = Some s"
  by (induction s) simp_all

lemma broadcast_shapes_same: "broadcast_shapes s s = Some s"
  by (simp add: broadcast_shapes_def broadcast_dims_same)

lemma broadcast_to_same: "well_shaped a \<Longrightarrow> broadcast_to (shape a) a = data a"
  by (simp add: broadcast_to_def pad_shape_def well_shaped_def expand_same)

lemma elementwise_same:
  assumes "well_shaped a" "well_shaped b" "shape a = shape b"
  shows "elementwise f a b = Inr \<lparr>shape = shape a, data = map2 f (data a) (data b)\<rparr>"
proof -
  have "broadcast_to (shape a) b = data b"
    using assms broadcast_to_same [of b] by simp
  moreover have "broadcast_to (shape b) a = data a"
    using assms broadcast_to_same [of a] by simp
  ultimately show ?thesis
    using assms by (simp add: elementwise_def broadcast_shapes_same)
qed

lemma calc_dice_same:
  assumes "well_shaped y_true" "well_shaped y_pred" "shape y_true = shape y_pred"
  shows "calc_dice y_true y_pred smooth =
           Inr (fdiv (2 * sum_list (map2 (*) (data y_true) (data y_pred)) + smooth)
                     (sum_list (data y_true) + sum_list (data y_pred) + smooth))"
  unfolding calc_dice_def elementwise_same [OF assms]
  by (simp add: and_then_def np_sum_def)

subsection \<open>Exchanging the operands\<close>

lemma broadcast_dims_commute: "broadcast_dims xs ys = broadcast_dims ys xs"
proof (induction xs ys rule: broadcast_dims.induct)
  case (1 ys)
  then show ?case by (cases ys) simp_all
next
  case (2 x xs)
  then show ?case by simp
next
  case (3 x xs y ys)
  then show ?case by auto
qed

lemma broadcast_shapes_commute: "broadcast_shapes s t = broadcast_shapes t s"
  by (simp add: broadcast_shapes_def broadcast_dims_commute [of "rev s"])

lemma map2_commute:
  assumes "\<And>x y. f x y = f y x"
  shows "map2 f xs ys = map2 f ys xs"
proof (induction xs arbitrary: ys)
  case Nil
  then show ?case by simp
next
  case (Cons x xs)
  then show ?case using assms by (cases ys) simp_all
qed

lemma elementwise_commute:
  assumes "\<And>x y. f x y = f y x"
  shows "elementwise f a b = elementwise f b a"
proof (cases "broadcast_shapes (shape a) (shape b)")
  case None
  then show ?thesis
    using broadcast_shapes_commute [of "shape a" "shape b"] by (simp add: elementwise_def)
next
  case (Some sh)
  then have "broadcast_shapes (shape b) (shape a) = Some sh"
    using broadcast_shapes_commute [of "shape a" "shape b"] by simp
  then show ?thesis
    using Some map2_commute [of f, OF assms] by (simp add: elementwise_def)
qed

lemma calc_dice_commute: "calc_dice a b s = calc_dice b a s"
proof -
  have "elementwise (*) a b = elementwise (*) b a"
    by (rule elementwise_commute) simp
  then show ?thesis by (simp add: calc_dice_def add.commute)
qed

subsection \<open>Overlap of a binary mask and a mask of probabilities\<close>

lemma overlap_bound:
  assumes "length xs = length ys"
    and "\<forall>x\<in>set xs. x = 0 \<or> x = (1::real)"
    and "\<forall>y\<in>set ys. 0 \<le> y \<and> y \<le> (1::real)"
  shows "0 \<le> sum_list (map2 (*) xs ys)
       \<and> 0 \<le> sum_list xs \<and> 0 \<le> sum_list ys
       \<and> 2 * sum_list (map2 (*) xs ys) \<le> sum_list xs + sum_list ys
       \<and> (2 * sum_list (map2 (*) xs ys) = sum_list xs + sum_list ys \<longrightarrow> xs = ys)"
  using assms
proof (induction xs ys rule: list_induct2)
  case Nil
  then show ?case by simp
next
  case (Cons x xs y ys)
  have x: "x = 0 \<or> x = 1" and y: "0 \<le> y" "y \<le> 1" using Cons.prems by simp_all
  have ih: "0 \<le> sum_list (map2 (*) xs ys)" "0 \<le> sum_list xs" "0 \<le> sum_list ys"
    "2 * sum_list (map2 (*) xs ys) \<le> sum_list xs + sum_list ys"
    "2 * sum_list (map2 (*) xs ys) = sum_list xs + sum_list ys \<longrightarrow> xs = ys"
    using Cons.IH Cons.prems by simp_all
  have head: "0 \<le> x * y" "0 \<le> x" "2 * (x * y) \<le> x + y" "2 * (x * y) = x + y \<longrightarrow> x = y"
    using x y by auto
  show ?case using ih head y by auto
qed

lemma binary_self_product:
  "\<forall>x\<in>set xs. x = 0 \<or> x = (1::real) \<Longrightarrow> sum_list (map2 (*) xs xs) = sum_list xs"
  by (induction xs) auto

subsection \<open>A reduction keeps the total\<close>

lemma length_vsum: "\<forall>p\<in>set ps. length p = n \<Longrightarrow> length (vsum n ps) = n"
  by (induction ps) simp_all

lemma sum_list_map2_add:
  "length xs = length ys \<Longrightarrow> sum_list (map2 (+) xs ys) = sum_list xs + (sum_list ys :: real)"
  by (induction xs ys rule: list_induct2) simp_all

lemma sum_list_concat_real: "sum_list (concat xss) = sum_list (map sum_list xss)"
  for xss :: "real list list"
  by (induction xss) simp_all

lemma sum_list_vsum:
  "\<forall>p\<in>set ps. length p = n \<Longrightarrow> sum_list (vsum n ps) = sum_list (map sum_list ps)"
proof (induction ps)
  case Nil
  then show ?case by (simp add: sum_list_replicate)
next
  case (Cons p ps)
  have "length p = length (vsum n ps)" using Cons.prems by (simp add: length_vsum)
  then show ?case using Cons by (simp add: sum_list_map2_add)
qed

lemma length_concat_uniform:
  "\<forall>p\<in>set ps. length p = m \<Longrightarrow> length (concat ps) = length ps * m"
  by (induction ps) simp_all

lemma length_reduce:
  "length d = prod_list sh \<Longrightarrow> length (reduce sh rs d) = prod_list (kept sh rs)"
proof (induction sh rs d rule: reduce.induct)
  case (1 s ss r rs d)
  let ?parts = "map (reduce ss rs) (chunks s (prod_list ss) d)"
  have len: "length d = s * prod_list ss" using "1.prems" by simp
  have parts: "\<forall>p\<in>set ?parts. length p = prod_list (kept ss rs)"
  proof
    fix p assume "p \<in> set ?parts"
    then obtain c where c: "c \<in> set (chunks s (prod_list ss) d)" and p: "p = reduce ss rs c"
      by auto
    have "length c = prod_list ss" using chunks_length [OF len c] .
    then show "length p = prod_list (kept ss rs)"
      using "1.IH" [of c] c p by (cases r) simp_all
  qed
  show ?case
  proof (cases r)
    case True
    then show ?thesis using length_vsum [OF parts] by simp
  next
    case False
    then show ?thesis using length_concat_uniform [OF parts] by (simp add: length_chunks)
  qed
next
  case (2 rs d)
  then show ?case by simp
next
  case (3 s ss d)
  then show ?case by simp
qed

lemma sum_list_reduce:
  "length d = prod_list sh \<Longrightarrow> sum_list (reduce sh rs d) = sum_list d"
proof (induction sh rs d rule: reduce.induct)
  case (1 s ss r rs d)
  let ?cs = "chunks s (prod_list ss) d"
  let ?parts = "map (reduce ss rs) ?cs"
  have len: "length d = s * prod_list ss" using "1.prems" by simp
  have clen: "length c = prod_list ss" if "c \<in> set ?cs" for c
    using chunks_length [OF len that] .
  have parts: "\<forall>p\<in>set ?parts. length p = prod_list (kept ss rs)"
    using clen by (auto simp: length_reduce)
  have "map sum_list ?parts = map sum_list ?cs"
    unfolding map_map
  proof (rule map_cong [OF refl])
    fix c assume c: "c \<in> set ?cs"
    show "(sum_list \<circ> reduce ss rs) c = sum_list c"
      using "1.IH" [of c] c clen [OF c] by (cases r) simp_all
  qed
  then have "sum_list (map sum_list ?parts) = sum_list (map sum_list ?cs)"
    by (rule arg_cong)
  also have "\<dots> = sum_list (concat ?cs)"
    by (rule sum_list_concat_real [symmetric])
  also have "\<dots> = sum_list d"
    by (simp only: concat_chunks [OF len])
  finally have total: "sum_list (map sum_list ?parts) = sum_list d" .
  show ?case
  proof (cases r)
    case True
    then show ?thesis using sum_list_vsum [OF parts] total by simp
  next
    case False
    then show ?thesis using total by (simp add: sum_list_concat_real)
  qed
next
  case (2 rs d)
  then show ?case by simp
next
  case (3 s ss d)
  then show ?case by simp
qed

subsection \<open>The Dice loss from the totals\<close>

lemma sum_list_add_const:
  "sum_list (map (\<lambda>x. x + s) xs) = sum_list xs + real (length xs) * s"
  by (induction xs) (simp_all add: algebra_simps)

lemma reduce_mean_add_const:
  "reduce_mean (scalar_op (\<lambda>x. x + s) a) =
     fdiv (sum_list (data a) + real (length (data a)) * s) (real (length (data a)))"
  by (simp add: reduce_mean_def scalar_op_def sum_list_add_const)

lemma dice_coef_loss_totals:
  assumes wt: "well_shaped target" and wp: "well_shaped prediction"
    and sh: "shape target = shape prediction"
    and ax: "valid_axes (length (shape target)) axis"
  shows "dice_coef_loss target prediction axis smooth =
           Inr (Option.bind (to_float32 smooth) (\<lambda>s.
                 dice_loss
                   (fdiv (sum_list (map2 (*) (data prediction) (data target))
                            + real (prod_list (kept (shape target) (axis_flags (length (shape target)) axis))) * s)
                         (real (prod_list (kept (shape target) (axis_flags (length (shape target)) axis)))))
                   (fdiv (sum_list (data target) + sum_list (data prediction)
                            + real (prod_list (kept (shape target) (axis_flags (length (shape target)) axis))) * s)
                         (real (prod_list (kept (shape target) (axis_flags (length (shape target)) axis)))))))"
proof -
  let ?sh = "shape target"
  let ?rs = "axis_flags (length ?sh) axis"
  let ?pt = "\<lparr>shape = shape prediction, data = map2 (*) (data prediction) (data target)\<rparr>"
  let ?i = "\<lparr>shape = kept ?sh ?rs, data = reduce ?sh ?rs (map2 (*) (data prediction) (data target))\<rparr>"
  let ?p = "\<lparr>shape = kept ?sh ?rs, data = reduce ?sh ?rs (data prediction)\<rparr>"
  let ?t = "\<lparr>shape = kept ?sh ?rs, data = reduce ?sh ?rs (data target)\<rparr>"
  let ?tp = "\<lparr>shape = kept ?sh ?rs, data = map2 (+) (data ?t) (data ?p)\<rparr>"
  have lt: "length (data target) = prod_list ?sh" and lp: "length (data prediction) = prod_list ?sh"
    using wt wp sh by (simp_all add: well_shaped_def)
  have lpt: "length (map2 (*) (data prediction) (data target)) = prod_list ?sh"
    using lt lp by simp
  have e1: "elementwise (*) prediction target = Inr ?pt"
    using elementwise_same [OF wp wt sh [symmetric]] .
  have e2: "reduce_sum ?pt axis = Inr ?i"
    using ax sh by (simp add: reduce_sum_def)
  have e3: "reduce_sum prediction axis = Inr ?p"
    using ax sh by (simp add: reduce_sum_def)
  have e4: "reduce_sum target axis = Inr ?t"
    using ax by (simp add: reduce_sum_def)
  have wt': "well_shaped ?t" using lt by (simp add: well_shaped_def length_reduce)
  have wp': "well_shaped ?p" using lp by (simp add: well_shaped_def length_reduce)
  have e5: "elementwise (+) ?t ?p = Inr ?tp"
    using elementwise_same [OF wt' wp'] by simp
  have li: "length (data ?i) = prod_list (kept ?sh ?rs)"
    using lpt by (simp add: length_reduce)
  have ltp: "length (data ?tp) = prod_list (kept ?sh ?rs)"
    using lt lp by (simp add: length_reduce)
  have si: "sum_list (data ?i) = sum_list (map2 (*) (data prediction) (data target))"
    using sum_list_reduce [OF lpt] by simp
  have "length (data ?t) = length (data ?p)" using lt lp by (simp add: length_reduce)
  then have "sum_list (data ?tp) = sum_list (data ?t) + sum_list (data ?p)"
    using sum_list_map2_add by simp
  then have stp: "sum_list (data ?tp) = sum_list (data target) + sum_list (data prediction)"
    using sum_list_reduce [OF lt] sum_list_reduce [OF lp] by simp
  have num: "reduce_mean (scalar_op (\<lambda>x. x + s) ?i) =
      fdiv (sum_list (map2 (*) (data prediction) (data target)) + real (prod_list (kept ?sh ?rs)) * s)
           (real (prod_list (kept ?sh ?rs)))" for s
    unfolding reduce_mean_add_const si li ..
  have den: "reduce_mean (scalar_op (\<lambda>x. x + s) ?tp) =
      fdiv (sum_list (data target) + sum_list (data prediction) + real (prod_list (kept ?sh ?rs)) * s)
           (real (prod_list (kept ?sh ?rs)))" for s
    unfolding reduce_mean_add_const stp ltp ..
  show ?thesis
    unfolding dice_coef_loss_def e1 and_then_def sum.case e2 e3 e4 e5 Let_def num den ..
qed

lemma dice_coef_loss_totals_at:
  assumes "well_shaped target" and "well_shaped prediction"
    and "shape target = shape prediction"
    and "valid_axes (length (shape target)) axis"
    and "to_float32 smooth = Some s"
  shows "dice_coef_loss target prediction axis smooth =
           Inr (dice_loss
                 (fdiv (sum_list (map2 (*) (data prediction) (data target))
                          + real (prod_list (kept (shape target) (axis_flags (length (shape target)) axis))) * s)
                       (real (prod_list (kept (shape target) (axis_flags (length (shape target)) axis)))))
                 (fdiv (sum_list (data target) + sum_list (data prediction)
                          + real (prod_list (kept (shape target) (axis_flags (length (shape target)) axis))) * s)
                       (real (prod_list (kept (shape target) (axis_flags (length (shape target)) axis))))))"
  unfolding dice_coef_loss_totals [OF assms(1-4)] assms(5) by simp

subsection \<open>The samples of a batch\<close>

lemma axis_flags_Suc:
  assumes "0 \<notin> set axis"
  shows "axis_flags (Suc n) axis = False # axis_flags n (map (\<lambda>a. a - 1) axis)"
proof -
  have mem: "(i \<in> (\<lambda>a. a - Suc 0) ` set axis) = (Suc i \<in> set axis)" for i
  proof
    assume "i \<in> (\<lambda>a. a - Suc 0) ` set axis"
    then obtain a where a: "a \<in> set axis" "i = a - Suc 0" by auto
    have "a \<noteq> 0" using a(1) assms by (cases "a = 0") simp_all
    then show "Suc i \<in> set axis" using a by simp
  next
    assume "Suc i \<in> set axis"
    then have "Suc i - Suc 0 \<in> (\<lambda>a. a - Suc 0) ` set axis" by (rule imageI)
    then show "i \<in> (\<lambda>a. a - Suc 0) ` set axis" by simp
  qed
  have "[0..<Suc n] = 0 # map Suc [0..<n]"
    by (simp add: upt_conv_Cons map_Suc_upt del: upt_Suc)
  then have "axis_flags (Suc n) axis = (0 \<in> set axis) # map (\<lambda>i. Suc i \<in> set axis) [0..<n]"
    unfolding axis_flags_def by (simp add: comp_def del: upt_Suc)
  then show ?thesis
    using assms unfolding axis_flags_def by (simp add: mem del: upt_Suc)
qed

lemma chunks_conv_map: "chunks n k d = map (\<lambda>b. take k (drop (b * k) d)) [0..<n]"
proof (induction n arbitrary: d)
  case 0
  then show ?case by simp
next
  case (Suc n)
  have "[0..<Suc n] = 0 # map Suc [0..<n]"
    by (simp add: upt_conv_Cons map_Suc_upt del: upt_Suc)
  then have "map (\<lambda>b. take k (drop (b * k) d)) [0..<Suc n] =
      take k d # map (\<lambda>b. take k (drop (Suc b * k) d)) [0..<n]"
    by (simp add: comp_def del: upt_Suc)
  moreover have "chunks n k (drop k d) = map (\<lambda>b. take k (drop (Suc b * k) d)) [0..<n]"
    using Suc.IH [of "drop k d"] by (simp add: add.commute)
  ultimately show ?case by (simp del: upt_Suc)
qed

lemma per_sample_sums_reduce:
  assumes "shape x = B # rest" and "0 \<notin> set axis"
  shows "per_sample_sums x axis = reduce (shape x) (axis_flags (length (shape x)) axis) (data x)"
  using assms
  by (simp add: per_sample_sums_def sample_sums_def sample_def axis_flags_Suc chunks_conv_map
      comp_def del: upt_Suc)

lemma dice_loss_means:
  "dice_loss (fdiv (a + n * s) n) (fdiv (t + p + n * s) n) =
     Option.bind (fdiv a n) (\<lambda>i.
     Option.bind (fdiv p n) (\<lambda>pp.
     Option.bind (fdiv t n) (\<lambda>tt.
     Option.bind (flog (2 * (i + s))) (\<lambda>x.
     Option.bind (flog (tt + pp + s)) (\<lambda>y. Some (- x + y))))))"
proof (cases "n = 0")
  case True
  then show ?thesis by (simp add: dice_loss_def fdiv_def)
next
  case False
  then have "(a + n * s) / n = a / n + s" and "(t + p + n * s) / n = t / n + p / n + s"
    by (simp_all add: add_divide_distrib)
  then show ?thesis using False by (simp add: dice_loss_def fdiv_def)
qed

lemma spec_overlap_loss_totals:
  assumes wt: "well_shaped ground_truth" and wp: "well_shaped prediction"
    and sh: "shape ground_truth = shape prediction"
    and batched: "shape ground_truth = B # rest"
    and ax0: "0 \<notin> set axis"
  shows "spec_overlap_loss ground_truth prediction axis s =
           dice_loss
             (fdiv (sum_list (map2 (*) (data prediction) (data ground_truth))
                      + real (prod_list (kept (shape ground_truth) (axis_flags (length (shape ground_truth)) axis))) * s)
                   (real (prod_list (kept (shape ground_truth) (axis_flags (length (shape ground_truth)) axis)))))
             (fdiv (sum_list (data ground_truth) + sum_list (data prediction)
                      + real (prod_list (kept (shape ground_truth) (axis_flags (length (shape ground_truth)) axis))) * s)
                   (real (prod_list (kept (shape ground_truth) (axis_flags (length (shape ground_truth)) axis)))))"
proof -
  let ?sh = "shape ground_truth"
  let ?rs = "axis_flags (length ?sh) axis"
  let ?n = "prod_list (kept ?sh ?rs)"
  let ?h = "hadamard ground_truth prediction"
  have lt: "length (data ground_truth) = prod_list ?sh"
    and lp: "length (data prediction) = prod_list ?sh"
    using wt wp sh by (simp_all add: well_shaped_def)
  have lh: "length (data ?h) = prod_list ?sh" using lt lp by (simp add: hadamard_def)
  have shh: "shape ?h = B # rest" using batched by (simp add: hadamard_def)
  have shp: "shape prediction = B # rest" using batched sh by simp
  have ph: "per_sample_sums ?h axis = reduce ?sh ?rs (data ?h)"
    using per_sample_sums_reduce [OF shh ax0] by (simp add: hadamard_def)
  have pp: "per_sample_sums prediction axis = reduce ?sh ?rs (data prediction)"
    using per_sample_sums_reduce [OF shp ax0] sh by simp
  have pt: "per_sample_sums ground_truth axis = reduce ?sh ?rs (data ground_truth)"
    using per_sample_sums_reduce [OF batched ax0] .
  have comm: "data ?h = map2 (*) (data prediction) (data ground_truth)"
    unfolding hadamard_def by (simp add: map2_commute [of "(*)" "data ground_truth"])
  have bh: "batch_mean (per_sample_sums ?h axis) =
      fdiv (sum_list (map2 (*) (data prediction) (data ground_truth))) (real ?n)"
  proof -
    have lc: "length (map2 (*) (data prediction) (data ground_truth)) = prod_list ?sh"
      using lt lp by simp
    show ?thesis
      unfolding batch_mean_def ph comm length_reduce [OF lc] sum_list_reduce [OF lc] ..
  qed
  have bp: "batch_mean (per_sample_sums prediction axis) = fdiv (sum_list (data prediction)) (real ?n)"
    unfolding batch_mean_def pp length_reduce [OF lp] sum_list_reduce [OF lp] ..
  have bt: "batch_mean (per_sample_sums ground_truth axis) = fdiv (sum_list (data ground_truth)) (real ?n)"
    unfolding batch_mean_def pt length_reduce [OF lt] sum_list_reduce [OF lt] ..
  show ?thesis
    unfolding spec_overlap_loss_def bh bp bt dice_loss_means ..
qed

lemma pair_batch_facts:
  "well_shaped pair_batch" "shape pair_batch = 2 # [2, 2]"
  "valid_axes (length (shape pair_batch)) [1, 2]" "0 \<notin> set [1, 2::nat]"
  by (simp_all add: well_shaped_def pair_batch_def valid_axes_def)

lemma sample_hadamard:
  "shape a = shape b \<Longrightarrow> sample (hadamard a b) i = hadamard (sample a i) (sample b i)"
  by (simp add: sample_def hadamard_def take_map drop_map take_zip drop_zip)

lemma sample_pointwise_sum:
  "shape a = shape b \<Longrightarrow> sample (pointwise_sum a b) i = pointwise_sum (sample a i) (sample b i)"
  by (simp add: sample_def pointwise_sum_def take_map drop_map take_zip drop_zip)

lemma map2_concat:
  assumes "\<forall>b\<in>set bs. length (f b) = length (g b)"
  shows "concat (map (\<lambda>b. map2 h (f b) (g b)) bs) = map2 h (concat (map f bs)) (concat (map g bs))"
  using assms by (induction bs) simp_all

lemma length_sample_sums:
  assumes len: "length (data x) = B * prod_list rest" and sh: "shape x = B # rest" and b: "b < B"
  shows "length (sample_sums (sample x b) axis) =
           prod_list (kept rest (axis_flags (length rest) (map (\<lambda>a. a - 1) axis)))"
proof -
  have "take (prod_list rest) (drop (b * prod_list rest) (data x))
          \<in> set (chunks B (prod_list rest) (data x))"
    using b unfolding chunks_conv_map by (simp del: upt_Suc)
  then have "length (take (prod_list rest) (drop (b * prod_list rest) (data x))) = prod_list rest"
    by (rule chunks_length [OF len])
  then have "length (data (sample x b)) = prod_list (shape (sample x b))"
    using sh by (simp add: sample_def)
  then show ?thesis
    unfolding sample_sums_def using sh by (simp add: length_reduce sample_def)
qed

lemma per_sample_scores_sums:
  assumes wg: "well_shaped ground_truth" and wp: "well_shaped prediction"
    and sh: "shape ground_truth = shape prediction"
    and batched: "shape ground_truth = B # rest"
  shows "per_sample_scores ground_truth prediction axis s =
           map2 (\<lambda>i u. fdiv (2 * i + s) (u + s))
             (per_sample_sums (hadamard ground_truth prediction) axis)
             (per_sample_sums (pointwise_sum ground_truth prediction) axis)"
proof -
  let ?h = "hadamard ground_truth prediction" and ?u = "pointwise_sum ground_truth prediction"
  have lg: "length (data ground_truth) = B * prod_list rest"
    and lp: "length (data prediction) = B * prod_list rest"
  proof -
    have shp: "shape prediction = B # rest" using sh batched by simp
    show "length (data ground_truth) = B * prod_list rest"
      using wg unfolding well_shaped_def batched by simp
    show "length (data prediction) = B * prod_list rest"
      using wp unfolding well_shaped_def shp by simp
  qed
  have lh: "length (data ?h) = B * prod_list rest" and shh: "shape ?h = B # rest"
    using lg lp batched by (simp_all add: hadamard_def)
  have lu: "length (data ?u) = B * prod_list rest" and shu: "shape ?u = B # rest"
    using lg lp batched by (simp_all add: pointwise_sum_def)
  have eq: "\<forall>b\<in>set [0..<B]. length (sample_sums (sample ?h b) axis)
                               = length (sample_sums (sample ?u b) axis)"
    using length_sample_sums [OF lh shh] length_sample_sums [OF lu shu] by simp
  have hd: "hd (shape ground_truth) = B" "hd (shape ?h) = B" "hd (shape ?u) = B"
    using batched shh shu by simp_all
  show ?thesis
    unfolding per_sample_scores_def sample_scores_def per_sample_sums_def hd
      sample_hadamard [OF sh, symmetric] sample_pointwise_sum [OF sh, symmetric]
    by (rule map2_concat [OF eq])
qed

lemma mean_score_quotients:
  assumes "length is = length us"
  shows "mean_score (map2 (\<lambda>i u. fdiv (2 * i + s) (u + s)) is us) =
           (if 0 \<in> set (map (\<lambda>x. x + s) us) then None
            else fdiv (sum_list (map2 (/) (map (\<lambda>x. x + s) (map (\<lambda>x. 2 * x) is)) (map (\<lambda>x. x + s) us)))
                      (real (length us)))"
proof -
  let ?sc = "map2 (\<lambda>i u. fdiv (2 * i + s) (u + s)) is us"
  have none: "(None \<in> set ?sc) = (0 \<in> set (map (\<lambda>x. x + s) us))"
    using assms by (induction "is" us rule: list_induct2) (auto simp: fdiv_def)
  have vals: "0 \<notin> set (map (\<lambda>x. x + s) us) \<Longrightarrow>
      map the ?sc = map2 (/) (map (\<lambda>x. x + s) (map (\<lambda>x. 2 * x) is)) (map (\<lambda>x. x + s) us)"
    using assms by (induction "is" us rule: list_induct2) (auto simp: fdiv_def)
  have len: "length ?sc = length us" using assms by simp
  show ?thesis
    unfolding mean_score_def none len using vals by simp
qed

lemma dice_coef_quotients:
  assumes wt: "well_shaped y_true" and wp: "well_shaped y_pred"
    and sh: "shape y_true = shape y_pred"
    and ax: "valid_axes (length (shape y_true)) axis"
    and f32: "to_float32 smooth = Some s"
  shows "dice_coef y_true y_pred axis smooth =
           Inr (if 0 \<in> set (map (\<lambda>x. x + s)
                        (reduce (shape y_true) (axis_flags (length (shape y_true)) axis)
                           (map2 (+) (data y_true) (data y_pred))))
                then None
                else fdiv (sum_list (map2 (/)
                        (map (\<lambda>x. x + s) (map (\<lambda>x. 2 * x)
                           (reduce (shape y_true) (axis_flags (length (shape y_true)) axis)
                              (map2 (*) (data y_true) (data y_pred)))))
                        (map (\<lambda>x. x + s)
                           (reduce (shape y_true) (axis_flags (length (shape y_true)) axis)
                              (map2 (+) (data y_true) (data y_pred))))))
                      (real (length (reduce (shape y_true) (axis_flags (length (shape y_true)) axis)
                              (map2 (+) (data y_true) (data y_pred))))))"
proof -
  let ?sh = "shape y_true"
  let ?rs = "axis_flags (length ?sh) axis"
  let ?I = "reduce ?sh ?rs (map2 (*) (data y_true) (data y_pred))"
  let ?U = "reduce ?sh ?rs (map2 (+) (data y_true) (data y_pred))"
  let ?tp = "\<lparr>shape = ?sh, data = map2 (*) (data y_true) (data y_pred)\<rparr>"
  let ?sm = "\<lparr>shape = ?sh, data = map2 (+) (data y_true) (data y_pred)\<rparr>"
  let ?i = "\<lparr>shape = kept ?sh ?rs, data = ?I\<rparr>"
  let ?u = "\<lparr>shape = kept ?sh ?rs, data = ?U\<rparr>"
  let ?num = "\<lparr>shape = kept ?sh ?rs, data = map (\<lambda>x. x + s) (map (\<lambda>x. 2 * x) ?I)\<rparr>"
  let ?den = "\<lparr>shape = kept ?sh ?rs, data = map (\<lambda>x. x + s) ?U\<rparr>"
  let ?coef = "\<lparr>shape = kept ?sh ?rs, data = map2 (/) (data ?num) (data ?den)\<rparr>"
  have lt: "length (data y_true) = prod_list ?sh" and lp: "length (data y_pred) = prod_list ?sh"
    using wt wp sh by (simp_all add: well_shaped_def)
  have lI: "length ?I = prod_list (kept ?sh ?rs)" and lU: "length ?U = prod_list (kept ?sh ?rs)"
    using lt lp by (simp_all add: length_reduce)
  have e1: "elementwise (*) y_true y_pred = Inr ?tp"
    using elementwise_same [OF wt wp sh] .
  have e2: "reduce_sum ?tp axis = Inr ?i"
    using ax by (simp add: reduce_sum_def)
  have e3: "elementwise (+) y_true y_pred = Inr ?sm"
    using elementwise_same [OF wt wp sh] .
  have e4: "reduce_sum ?sm axis = Inr ?u"
    using ax by (simp add: reduce_sum_def)
  have n: "scalar_op (\<lambda>x. x + s) (scalar_op (\<lambda>x. 2 * x) ?i) = ?num"
    by (simp add: scalar_op_def)
  have d: "scalar_op (\<lambda>x. x + s) ?u = ?den"
    by (simp add: scalar_op_def)
  have wn: "well_shaped ?num" and wd: "well_shaped ?den"
    using lI lU by (simp_all add: well_shaped_def)
  have e5: "elementwise (/) ?num ?den = Inr ?coef"
    using elementwise_same [OF wn wd] by simp
  have b: "broadcast_to (shape ?coef) ?den = data ?den"
    using broadcast_to_same [OF wd] by simp
  have e6: "divide ?num ?den = Inr (if 0 \<in> set (data ?den) then None else Some ?coef)"
    unfolding divide_def e5 and_then_def sum.case b ..
  have lc: "length (data ?coef) = length ?U" using lI lU by simp
  have m: "reduce_mean ?coef = fdiv (sum_list (data ?coef)) (real (length ?U))"
    unfolding reduce_mean_def lc ..
  have "dice_coef y_true y_pred axis smooth =
      Inr (Option.bind (if 0 \<in> set (data ?den) then None else Some ?coef) reduce_mean)"
    unfolding dice_coef_def e1 and_then_def sum.case e2 e3 e4 f32 option.case Let_def n d e6 ..
  also have "\<dots> = Inr (if 0 \<in> set (data ?den) then None else reduce_mean ?coef)"
    by simp
  finally show ?thesis unfolding m by simp
qed


lemma dice_coef_float64_raises:
  assumes "well_shaped y_true" and "well_shaped y_pred"
    and "shape y_true = shape y_pred"
    and "valid_axes (length (shape y_true)) axis"
  shows "dice_coef_float64 y_true y_pred axis smooth = Inl MismatchedTypes"
  unfolding dice_coef_float64_def elementwise_same [OF assms(1-3)] and_then_def
  using assms(4) by (simp add: reduce_sum_def)

lemma calc_dice_uint8_same:
  assumes "well_shaped y_true" "well_shaped y_pred" "shape y_true = shape y_pred"
  shows "calc_dice_uint8 y_true y_pred smooth =
           Inr (fdiv (2 * wrap 64 (sum_list (map2 (\<lambda>x y. wrap 8 (x * y)) (data y_true) (data y_pred)))
                        + smooth)
                     (wrap 64 (wrap 64 (sum_list (data y_true)) + wrap 64 (sum_list (data y_pred)))
                        + smooth))"
  unfolding calc_dice_uint8_def elementwise_same [OF assms]
  by (simp add: and_then_def np_sum_def)

lemma dice_coef_loss_invalid_axes:
  assumes "well_shaped target" and "well_shaped prediction"
    and "shape target = shape prediction"
    and "\<not> valid_axes (length (shape target)) axis"
  shows "dice_coef_loss target prediction axis s = Inl InvalidAxis"
proof -
  have e1: "elementwise (*) prediction target =
      Inr \<lparr>shape = shape prediction, data = map2 (*) (data prediction) (data target)\<rparr>"
    using elementwise_same [OF assms(2,1) assms(3) [symmetric]] .
  show ?thesis
    unfolding dice_coef_loss_def e1 and_then_def sum.case
    using assms(3,4) by (simp add: reduce_sum_def)
qed

subsection \<open>Values on the example inputs\<close>

lemma example_batches_well_shaped:
  "well_shaped empty_full_truth" "well_shaped empty_pred"
  "well_shaped partial_truth" "well_shaped partial_pred"
  by (simp_all add: well_shaped_def empty_full_truth_def empty_pred_def partial_truth_def
      partial_pred_def)

lemma example_batches_shape:
  "shape empty_full_truth = 2 # [2, 2]" "shape empty_pred = 2 # [2, 2]"
  "shape partial_truth = 2 # [2, 2]" "shape partial_pred = 2 # [2, 2]"
  by (simp_all add: empty_full_truth_def empty_pred_def partial_truth_def partial_pred_def)

lemma example_axes: "valid_axes (length (2 # [2, 2::nat])) [1, 2]" "0 \<notin> set [1, 2::nat]"
  by (simp_all add: valid_axes_def)

lemma kept_example: "kept (2 # [2, 2]) (axis_flags (length (2 # [2, 2::nat])) [1, 2]) = [2]"
  by (simp add: axis_flags_def eval_nat_numeral upt_rec)


lemma loss_partial:
  "dice_coef_loss partial_truth partial_pred [1, 2] 1 = Inr (Some (- ln 4 + ln (11 / 2)))"
proof -
  have ax: "valid_axes (length (shape partial_truth)) [1, 2]"
    using example_axes(1) by (simp add: example_batches_shape)
  have sh: "shape partial_truth = shape partial_pred" by (simp add: example_batches_shape)
  show ?thesis
    unfolding dice_coef_loss_totals_at [OF example_batches_well_shaped(3,4) sh ax to_float32_one]
    unfolding example_batches_shape kept_example
    by (simp add: partial_truth_def partial_pred_def dice_loss_def fdiv_def flog_def)
qed




subsection \<open>Batches whose union sums are all equal\<close>






subsection \<open>Shapes that do not fit, and tensors of no axes\<close>

lemma elementwise_incompatible:
  "broadcast_shapes (shape a) (shape b) = None \<Longrightarrow> elementwise f a b = Inl IncompatibleShapes"
  by (simp add: elementwise_def)

lemma scoring_incompatible:
  assumes "broadcast_shapes (shape y_true) (shape y_pred) = None"
  shows "calc_dice y_true y_pred s = Inl IncompatibleShapes"
    and "dice_coef y_true y_pred axis s = Inl IncompatibleShapes"
    and "dice_coef_loss y_true y_pred axis s = Inl IncompatibleShapes"
    and "combined_dice_ce_loss binary_crossentropy y_true y_pred axis s w = Inl IncompatibleShapes"
proof -
  have rev: "broadcast_shapes (shape y_pred) (shape y_true) = None"
    using assms broadcast_shapes_commute [of "shape y_pred" "shape y_true"] by simp
  show "calc_dice y_true y_pred s = Inl IncompatibleShapes"
    by (simp add: calc_dice_def elementwise_incompatible [OF assms] and_then_def)
  show "dice_coef y_true y_pred axis s = Inl IncompatibleShapes"
    by (simp add: dice_coef_def elementwise_incompatible [OF assms] and_then_def)
  show l: "dice_coef_loss y_true y_pred axis s = Inl IncompatibleShapes"
    by (simp add: dice_coef_loss_def elementwise_incompatible [OF rev] and_then_def)
  show "combined_dice_ce_loss binary_crossentropy y_true y_pred axis s w = Inl IncompatibleShapes"
    by (simp add: combined_dice_ce_loss_def l and_then_def)
qed

lemma calc_dice_compatible:
  assumes "broadcast_shapes (shape y_true) (shape y_pred) = Some sh"
  shows "\<exists>v. calc_dice y_true y_pred s = Inr v"
  using assms by (simp add: calc_dice_def elementwise_def and_then_def)

lemma concat_replicate_replicate: "concat (replicate n (replicate m x)) = replicate (n * m) x"
  by (induction n) (simp_all add: replicate_add)

lemma expand_scalar: "expand (replicate (length t) 1) t [v] = replicate (prod_list t) v"
proof (induction t)
  case Nil
  then show ?case by simp
next
  case (Cons a t)
  have ch: "chunks 1 (prod_list (replicate (length t) 1)) [v] = [[v]]"
    by (simp add: prod_list_replicate)
  show ?case
  proof (cases "a = 1")
    case True
    then show ?thesis using Cons.IH ch by simp
  next
    case False
    then show ?thesis using Cons.IH by (simp add: concat_replicate_replicate)
  qed
qed

lemma broadcast_shapes_scalar: "broadcast_shapes [] sh = Some sh"
  by (simp add: broadcast_shapes_def)

lemma zip_replicate_map: "length xs = n \<Longrightarrow> map2 f (replicate n v) xs = map (f v) xs"
  by (induction xs arbitrary: n) auto

lemma elementwise_scalar:
  assumes "well_shaped c"
  shows "elementwise f (scalar_tensor v) c = Inr \<lparr>shape = shape c, data = map (f v) (data c)\<rparr>"
proof -
  have b1: "broadcast_to (shape c) (scalar_tensor v) = replicate (prod_list (shape c)) v"
    using expand_scalar [of "shape c" v]
    by (simp add: broadcast_to_def pad_shape_def scalar_tensor_def)
  have b2: "broadcast_to (shape c) c = data c"
    using broadcast_to_same [OF assms] .
  have len: "length (data c) = prod_list (shape c)" using assms by (simp add: well_shaped_def)
  have sh: "broadcast_shapes (shape (scalar_tensor v)) (shape c) = Some (shape c)"
    by (simp add: scalar_tensor_def broadcast_shapes_scalar)
  show ?thesis
    unfolding elementwise_def sh option.case b1 b2 zip_replicate_map [OF len] ..
qed

lemma combined_propagates:
  shows "dice_coef_loss y_true y_pred axis s = Inl e \<Longrightarrow>
           combined_dice_ce_loss binary_crossentropy y_true y_pred axis s w = Inl e"
    and "dice_coef_loss y_true y_pred axis s = Inr None \<Longrightarrow>
           binary_crossentropy y_true y_pred = Inr ce \<Longrightarrow>
           combined_dice_ce_loss binary_crossentropy y_true y_pred axis s w = Inr None"
  by (simp_all add: combined_dice_ce_loss_def and_then_def)

lemma combined_cases:
  assumes ce: "binary_crossentropy y_true y_pred = Inr ce" and wf: "well_shaped ce"
    and w: "to_float32 weight = Some w" and cw: "to_float32 (1 - weight) = Some cw"
  shows "combined_dice_ce_loss binary_crossentropy y_true y_pred axis s weight =
           (case dice_coef_loss y_true y_pred axis s of
              Inl e \<Rightarrow> Inl e
            | Inr None \<Rightarrow> Inr None
            | Inr (Some l) \<Rightarrow>
                Inr (Some \<lparr>shape = shape ce, data = map (\<lambda>x. w * l + cw * x) (data ce)\<rparr>))"
proof (cases "dice_coef_loss y_true y_pred axis s")
  case (Inl e)
  then show ?thesis by (simp add: combined_dice_ce_loss_def and_then_def)
next
  case (Inr dl)
  show ?thesis
  proof (cases dl)
    case None
    then show ?thesis using Inr ce by (simp add: combined_dice_ce_loss_def and_then_def)
  next
    case (Some l)
    have w': "well_shaped (scalar_op (\<lambda>x. cw * x) ce)"
      using wf by (simp add: well_shaped_def scalar_op_def)
    have "elementwise (+) (scalar_tensor (w * l)) (scalar_op (\<lambda>x. cw * x) ce) =
        Inr \<lparr>shape = shape ce, data = map (\<lambda>x. w * l + cw * x) (data ce)\<rparr>"
      unfolding elementwise_scalar [OF w'] by (simp add: scalar_op_def comp_def)
    then show ?thesis
      using Inr Some ce w cw by (simp add: combined_dice_ce_loss_def and_then_def)
  qed
qed


lemma vector_examples:
  "broadcast_shapes (shape two_ones) (shape three_ones) = None"
  "broadcast_shapes (shape two_ones) (shape one_one) = Some [2]"
  "shape two_ones \<noteq> shape one_one"
  by (simp_all add: broadcast_shapes_def two_ones_def three_ones_def one_one_def)

lemma calc_dice_two_one: "calc_dice two_ones one_one 1 = Inr (Some (5 / 4))"
  by (simp add: calc_dice_def elementwise_def broadcast_shapes_def broadcast_to_def pad_shape_def
      two_ones_def one_one_def and_then_def np_sum_def fdiv_def eval_nat_numeral)

lemma calc_dice_three_one: "calc_dice three_ones one_one 1 = Inr (Some (7 / 5))"
  by (simp add: calc_dice_def elementwise_def broadcast_shapes_def broadcast_to_def pad_shape_def
      three_ones_def one_one_def and_then_def np_sum_def fdiv_def eval_nat_numeral)



lemma loss_zero_smoothing: "dice_coef_loss empty_pred empty_pred [1, 2] 0 = Inr None"
proof -
  have ax: "valid_axes (length (shape empty_pred)) [1, 2]"
    using example_axes(1) by (simp add: example_batches_shape)
  show ?thesis
    unfolding dice_coef_loss_totals_at [OF example_batches_well_shaped(2) example_batches_well_shaped(2) refl ax
      to_float32_zero]
    unfolding example_batches_shape kept_example
    by (simp add: empty_pred_def dice_loss_def fdiv_def flog_def)
qed

lemma loss_underflow_smoothing:
  "dice_coef_loss empty_pred empty_pred [1, 2] (1 / 2 ^ 200) = Inr None"
proof -
  have ax: "valid_axes (length (shape empty_pred)) [1, 2]"
    using example_axes(1) by (simp add: example_batches_shape)
  show ?thesis
    unfolding dice_coef_loss_totals_at [OF example_batches_well_shaped(2) example_batches_well_shaped(2) refl ax
      to_float32_underflow]
    unfolding example_batches_shape kept_example
    by (simp add: empty_pred_def dice_loss_def fdiv_def flog_def)
qed

lemma score_underflow_smoothing:
  "dice_coef empty_pred empty_pred [1, 2] (1 / 2 ^ 200) = Inr None"
proof -
  have ax: "valid_axes (length (shape empty_pred)) [1, 2]"
    using example_axes(1) by (simp add: example_batches_shape)
  show ?thesis
    unfolding dice_coef_quotients [OF example_batches_well_shaped(2) example_batches_well_shaped(2) refl ax
      to_float32_underflow]
    by (simp add: empty_pred_def axis_flags_def fdiv_def eval_nat_numeral upt_rec)
qed

lemma loss_rank_two: "dice_coef_loss square_mask square_mask [1, 2] 1 = Inl InvalidAxis"
proof -
  have w: "well_shaped square_mask" by (simp add: well_shaped_def square_mask_def)
  have "\<not> valid_axes (length (shape square_mask)) [1, 2]"
    by (simp add: valid_axes_def square_mask_def)
  then show ?thesis using dice_coef_loss_invalid_axes [OF w w refl] by simp
qed

lemma fixed_crossentropy_value:
  "fixed_crossentropy a b = Inr \<lparr>shape = [2, 2], data = [1/2, 1/4, 1/4, 1/2]\<rparr>"
  "well_shaped \<lparr>shape = [2, 2], data = [1/2, 1/4, 1/4, 1/2]\<rparr>"
  by (simp_all add: fixed_crossentropy_def well_shaped_def)

section \<open>The claims\<close>

text \<open>
  C1, as stated: for every pair of numeric arrays of equal shape and every smoothing,
  \<open>calc_dice\<close> (hard_overlap_score) returns
  (2 * sum(ground_truth * prediction) + s) / (sum(ground_truth) + sum(prediction) + s).
  This fails on arrays of 8-bit unsigned integers: the product 16 * 16 wraps around to 0,
  and the score with smoothing 1 is 1/33, where the formula gives 513/33.
\<close>

theorem hard_overlap_score_uint8_counterexample:
  "calc_dice_uint8 sixteen sixteen 1 = Inr (Some (1 / 33))
   \<and> fdiv (2 * sum_list (map2 (*) (data sixteen) (data sixteen)) + 1)
           (sum_list (data sixteen) + sum_list (data sixteen) + 1) = Some (513 / 33)
   \<and> (1 / 33 :: real) \<noteq> 513 / 33"
  by (simp add: calc_dice_uint8_def elementwise_def broadcast_shapes_def broadcast_to_def
      pad_shape_def sixteen_def and_then_def np_sum_def fdiv_def wrap_def eval_nat_numeral)

text \<open>
  C1, amended. For masks of 64-bit floats of equal shape (ground truth with entries 0 or 1,
  prediction with entries between 0 and 1) and every smoothing that is not negative,
  \<open>calc_dice\<close> returns
  (2 * sum(ground_truth * prediction) + s) / (sum(ground_truth) + sum(prediction) + s),
  the product taken element by element and each sum over every element of the array,
  whatever the number of axes and the batch size: one number. For arrays of 8-bit unsigned
  integers of equal shape it returns the same quotient with every product taken modulo 256
  (and the integer sums modulo 2^64).
\<close>

theorem hard_overlap_score_formula:
  assumes "well_shaped ground_truth" and "well_shaped prediction"
    and "shape ground_truth = shape prediction"
  shows "(set (data ground_truth) \<subseteq> {0, 1} \<and> set (data prediction) \<subseteq> {0..1} \<and> 0 \<le> s \<longrightarrow>
           calc_dice ground_truth prediction s =
             Inr (fdiv (2 * sum_list (map2 (*) (data ground_truth) (data prediction)) + s)
                       (sum_list (data ground_truth) + sum_list (data prediction) + s)))
       \<and> calc_dice_uint8 ground_truth prediction s =
             Inr (fdiv (2 * wrap 64 (sum_list (map2 (\<lambda>x y. wrap 8 (x * y))
                                                  (data ground_truth) (data prediction))) + s)
                       (wrap 64 (wrap 64 (sum_list (data ground_truth))
                                 + wrap 64 (sum_list (data prediction))) + s))"
  using calc_dice_same [OF assms, of s] calc_dice_uint8_same [OF assms, of s] by simp

text \<open>The two scenarios of the specification: the square mask against itself scores 1,
  against the empty mask 1/5. Two arrays of bytes: the products 400 and 300 are kept as 144
  and 44.\<close>

theorem hard_overlap_score_formula_witness:
  "well_shaped square_mask \<and> well_shaped zero_mask \<and> shape square_mask = shape zero_mask
   \<and> set (data square_mask) \<subseteq> {0, 1} \<and> set (data zero_mask) \<subseteq> {0..1} \<and> (0::real) \<le> 1
   \<and> calc_dice square_mask square_mask 1 = Inr (Some 1)
   \<and> calc_dice square_mask zero_mask 1 = Inr (Some (1 / 5))
   \<and> well_shaped bytes_a \<and> well_shaped bytes_b \<and> shape bytes_a = shape bytes_b
   \<and> calc_dice_uint8 bytes_a bytes_b 1 = Inr (Some (377 / 306))"
proof -
  have w1: "well_shaped square_mask" by (simp add: well_shaped_def square_mask_def)
  have w2: "well_shaped zero_mask" by (simp add: well_shaped_def zero_mask_def)
  have sh: "shape square_mask = shape zero_mask" by (simp add: square_mask_def zero_mask_def)
  have m1: "set (data square_mask) \<subseteq> {0, 1}" by (simp add: square_mask_def)
  have m2: "set (data zero_mask) \<subseteq> {0..1}" by (simp add: zero_mask_def)
  have m3: "set (data square_mask) \<subseteq> {0..1}" by (simp add: square_mask_def)
  have b1: "well_shaped bytes_a" by (simp add: well_shaped_def bytes_a_def)
  have b2: "well_shaped bytes_b" by (simp add: well_shaped_def bytes_b_def)
  have bs: "shape bytes_a = shape bytes_b" by (simp add: bytes_a_def bytes_b_def)
  have "calc_dice square_mask square_mask 1 = Inr (Some 1)"
    using hard_overlap_score_formula [OF w1 w1 refl, of 1] m1 m3
    by (simp add: square_mask_def fdiv_def)
  moreover have "calc_dice square_mask zero_mask 1 = Inr (Some (1 / 5))"
    using hard_overlap_score_formula [OF w1 w2 sh, of 1] m1 m2
    by (simp add: square_mask_def zero_mask_def fdiv_def)
  moreover have "calc_dice_uint8 bytes_a bytes_b 1 = Inr (Some (377 / 306))"
    using hard_overlap_score_formula [OF b1 b2 bs, of 1]
    by (simp add: bytes_a_def bytes_b_def fdiv_def wrap_def)
  ultimately show ?thesis using w1 w2 sh m1 m2 b1 b2 bs by simp
qed

text \<open>
  C2, as stated: for batched arrays of equal shape and every smoothing s,
  \<open>dice_coef_loss\<close> (overlap_loss) returns -log(2 * (I + s)) + log(T + P + s), with I, P
  and T the means over the batch of the per-sample sums. This fails for a smoothing too
  small for a 32-bit float: 2^-200 becomes 0 where it is added to the tensors, and on empty
  masks the loss is -log 0 + log 0, not a number, where the formula gives -log 2.
\<close>

theorem overlap_loss_underflow_counterexample:
  "dice_coef_loss empty_pred empty_pred [1, 2] (1 / 2 ^ 200) = Inr None
   \<and> spec_overlap_loss empty_pred empty_pred [1, 2] (1 / 2 ^ 200) = Some (- ln 2)"
proof -
  have "ln (2 * (1 / 2 ^ 200 :: real)) = ln 2 + ln (1 / 2 ^ 200)"
    by (rule ln_mult_pos) simp_all
  then have l: "- ln (2 * (1 / 2 ^ 200 :: real)) + ln (1 / 2 ^ 200) = - ln 2"
    by simp
  have "spec_overlap_loss empty_pred empty_pred [1, 2] (1 / 2 ^ 200) =
      Some (- ln (2 * (1 / 2 ^ 200)) + ln (1 / 2 ^ 200))"
    unfolding spec_overlap_loss_totals [OF example_batches_well_shaped(2)
        example_batches_well_shaped(2) refl example_batches_shape(2) example_axes(2)]
    unfolding example_batches_shape kept_example
    by (simp add: empty_pred_def dice_loss_def fdiv_def flog_def del: ln_divide_pos)
  then show ?thesis using loss_underflow_smoothing l by simp
qed

text \<open>
  C2, amended. For batched masks of 32-bit floats of equal shape (ground truth with entries
  0 or 1, prediction with entries between 0 and 1), reduction axes that leave the batch
  axis alone, and every smoothing between 2^-100 and 2^100: the smoothing is a positive
  32-bit float s after rounding, and \<open>dice_coef_loss\<close> returns
  -log(2 * (I + s)) + log(T + P + s), where I, P and T are the means over the batch of the
  per-sample sums of ground_truth * prediction, of prediction and of ground_truth over the
  reduction axes. (On a batch of no samples both sides are not a number.)
\<close>

theorem overlap_loss_formula:
  assumes "well_shaped ground_truth" and "well_shaped prediction"
    and "shape ground_truth = shape prediction"
    and "shape ground_truth = B # rest"
    and "valid_axes (length (shape ground_truth)) axis" and "0 \<notin> set axis"
    and "set (data ground_truth) \<subseteq> {0, 1}" and "set (data prediction) \<subseteq> {0..1}"
    and "1 / 2 ^ 100 \<le> smoothing" and "smoothing \<le> 2 ^ 100"
  shows "\<exists>s. to_float32 smoothing = Some s \<and> 0 < s
           \<and> dice_coef_loss ground_truth prediction axis smoothing =
               Inr (spec_overlap_loss ground_truth prediction axis s)"
proof -
  obtain s where s: "to_float32 smoothing = Some s" "0 < s"
    using to_float32_normal [OF assms(9,10)] by blast
  have "dice_coef_loss ground_truth prediction axis smoothing =
      Inr (spec_overlap_loss ground_truth prediction axis s)"
    unfolding dice_coef_loss_totals_at [OF assms(1,2,3,5) s(1)]
      spec_overlap_loss_totals [OF assms(1,2,3,4,6)] ..
  then show ?thesis using s by blast
qed

text \<open>The batch of two samples against itself, summed over the two spatial axes, smoothing
  1: the means are I = T = P = 1, and the loss is -log 4 + log 3.\<close>

theorem overlap_loss_formula_witness:
  "well_shaped pair_batch \<and> shape pair_batch = 2 # [2, 2]
   \<and> valid_axes (length (shape pair_batch)) [1, 2] \<and> 0 \<notin> set [1, 2::nat]
   \<and> set (data pair_batch) \<subseteq> {0, 1} \<and> set (data pair_batch) \<subseteq> {0..1}
   \<and> 1 / 2 ^ 100 \<le> (1::real) \<and> (1::real) \<le> 2 ^ 100
   \<and> to_float32 1 = Some 1
   \<and> spec_overlap_loss pair_batch pair_batch [1, 2] 1 = Some (- ln 4 + ln 3)
   \<and> dice_coef_loss pair_batch pair_batch [1, 2] 1 = Inr (Some (- ln 4 + ln 3))"
proof -
  have m1: "set (data pair_batch) \<subseteq> {0, 1}" and m2: "set (data pair_batch) \<subseteq> {0..1}"
    by (simp_all add: pair_batch_def)
  have lo: "1 / 2 ^ 100 \<le> (1::real)" and hi: "(1::real) \<le> 2 ^ 100" by simp_all
  have v: "spec_overlap_loss pair_batch pair_batch [1, 2] 1 = Some (- ln 4 + ln 3)"
    by (simp add: spec_overlap_loss_def per_sample_sums_def sample_sums_def sample_def hadamard_def
        batch_mean_def dice_loss_def fdiv_def flog_def axis_flags_def pair_batch_def
        eval_nat_numeral upt_rec)
  have "dice_coef_loss pair_batch pair_batch [1, 2] 1 = Inr (Some (- ln 4 + ln 3))"
    using overlap_loss_formula [OF pair_batch_facts(1) pair_batch_facts(1) refl
        pair_batch_facts(2,3,4) m1 m2 lo hi] to_float32_one v
    by auto
  then show ?thesis
    using pair_batch_facts m1 m2 lo hi to_float32_one v by simp
qed

text \<open>
  C3, as stated: for every pair of batched arrays of equal shape and every smoothing,
  \<open>dice_coef\<close> (soft_overlap_score) returns the mean of the per-sample scores, 1 in the
  scenario of two samples. This fails on arrays of 64-bit floats, the type NumPy gives an
  array by default: the constant \<open>tf.constant(2.)\<close> is a 32-bit float, and its product with
  the 64-bit intersection raises, where the mean of the scenario is 1. It fails on 32-bit
  floats too, for a smoothing too small for them: with 2^-200 on empty masks the scores are
  0 / 0, where the formula gives 1.
\<close>

theorem soft_overlap_score_float64_counterexample:
  "dice_coef_float64 pair_batch pair_batch [1, 2] 1 = Inl MismatchedTypes
   \<and> spec_soft_overlap_score pair_batch pair_batch [1, 2] 1 = Some 1
   \<and> dice_coef empty_pred empty_pred [1, 2] (1 / 2 ^ 200) = Inr None
   \<and> spec_soft_overlap_score empty_pred empty_pred [1, 2] (1 / 2 ^ 200) = Some 1"
proof -
  have "per_sample_scores pair_batch pair_batch [1, 2] 1 = [Some 1, Some 1]"
    by (simp add: per_sample_scores_def sample_scores_def sample_sums_def sample_def hadamard_def
        pointwise_sum_def fdiv_def axis_flags_def pair_batch_def eval_nat_numeral upt_rec)
  then have a: "spec_soft_overlap_score pair_batch pair_batch [1, 2] 1 = Some 1"
    unfolding spec_soft_overlap_score_def by (simp add: mean_score_def fdiv_def)
  have "per_sample_scores empty_pred empty_pred [1, 2] (1 / 2 ^ 200) = [Some 1, Some 1]"
    by (simp add: per_sample_scores_def sample_scores_def sample_sums_def sample_def hadamard_def
        pointwise_sum_def fdiv_def axis_flags_def empty_pred_def eval_nat_numeral upt_rec)
  then have b: "spec_soft_overlap_score empty_pred empty_pred [1, 2] (1 / 2 ^ 200) = Some 1"
    unfolding spec_soft_overlap_score_def by (simp add: mean_score_def fdiv_def)
  show ?thesis
    using a b score_underflow_smoothing
      dice_coef_float64_raises [OF pair_batch_facts(1) pair_batch_facts(1) refl
        pair_batch_facts(3), of 1]
    by simp
qed

text \<open>
  C3, amended. For batched masks of 32-bit floats of equal shape (ground truth with entries
  0 or 1, prediction with entries between 0 and 1), reduction axes that leave the batch
  axis alone, and every smoothing between 2^-100 and 2^100: the smoothing is a positive
  32-bit float s after rounding, and \<open>dice_coef\<close> returns the arithmetic mean of the
  per-sample scores (2 * intersection + s) / (union_sum + s), each computed from one
  sample alone, with intersection the sum of ground_truth * prediction and union_sum the
  sum of ground_truth + prediction over the reduction axes of that sample. On arrays of
  64-bit floats \<open>dice_coef\<close> raises the library's error for mismatched number types.
\<close>

theorem soft_overlap_score_formula:
  assumes "well_shaped ground_truth" and "well_shaped prediction"
    and "shape ground_truth = shape prediction"
    and "shape ground_truth = B # rest"
    and "valid_axes (length (shape ground_truth)) axis" and "0 \<notin> set axis"
    and "set (data ground_truth) \<subseteq> {0, 1}" and "set (data prediction) \<subseteq> {0..1}"
    and "1 / 2 ^ 100 \<le> smoothing" and "smoothing \<le> 2 ^ 100"
  shows "(\<exists>s. to_float32 smoothing = Some s \<and> 0 < s
            \<and> dice_coef ground_truth prediction axis smoothing =
                Inr (spec_soft_overlap_score ground_truth prediction axis s))
       \<and> dice_coef_float64 ground_truth prediction axis smoothing = Inl MismatchedTypes"
proof -
  let ?sh = "shape ground_truth"
  let ?rs = "axis_flags (length ?sh) axis"
  let ?h = "hadamard ground_truth prediction" and ?u = "pointwise_sum ground_truth prediction"
  obtain s where s: "to_float32 smoothing = Some s" "0 < s"
    using to_float32_normal [OF assms(9,10)] by blast
  have lg: "length (data ground_truth) = prod_list ?sh"
    and lp: "length (data prediction) = prod_list ?sh"
    using assms(1-3) by (simp_all add: well_shaped_def)
  have shh: "shape ?h = B # rest" and shu: "shape ?u = B # rest"
    using assms(4) by (simp_all add: hadamard_def pointwise_sum_def)
  have ph: "per_sample_sums ?h axis = reduce ?sh ?rs (map2 (*) (data ground_truth) (data prediction))"
    using per_sample_sums_reduce [OF shh assms(6)] by (simp add: hadamard_def)
  have pu: "per_sample_sums ?u axis = reduce ?sh ?rs (map2 (+) (data ground_truth) (data prediction))"
    using per_sample_sums_reduce [OF shu assms(6)] by (simp add: pointwise_sum_def)
  have len: "length (reduce ?sh ?rs (map2 (*) (data ground_truth) (data prediction)))
           = length (reduce ?sh ?rs (map2 (+) (data ground_truth) (data prediction)))"
    using lg lp by (simp add: length_reduce)
  have "dice_coef ground_truth prediction axis smoothing =
      Inr (spec_soft_overlap_score ground_truth prediction axis s)"
    unfolding dice_coef_quotients [OF assms(1,2,3,5) s(1)]
      spec_soft_overlap_score_def per_sample_scores_sums [OF assms(1-4)] ph pu
      mean_score_quotients [OF len] ..
  then show ?thesis
    using s dice_coef_float64_raises [OF assms(1,2,3,5), of smoothing] by blast
qed

text \<open>The scenario of the specification on 32-bit floats: two samples with intersection and
  union sum (2, 4) and (0, 0), smoothing 1: the per-sample scores are 1 and 1, and so is
  their mean.\<close>

theorem soft_overlap_score_formula_witness:
  "well_shaped pair_batch \<and> shape pair_batch = 2 # [2, 2]
   \<and> valid_axes (length (shape pair_batch)) [1, 2] \<and> 0 \<notin> set [1, 2::nat]
   \<and> set (data pair_batch) \<subseteq> {0, 1} \<and> set (data pair_batch) \<subseteq> {0..1}
   \<and> 1 / 2 ^ 100 \<le> (1::real) \<and> (1::real) \<le> 2 ^ 100
   \<and> to_float32 1 = Some 1
   \<and> per_sample_sums (hadamard pair_batch pair_batch) [1, 2] = [2, 0]
   \<and> per_sample_sums (pointwise_sum pair_batch pair_batch) [1, 2] = [4, 0]
   \<and> per_sample_scores pair_batch pair_batch [1, 2] 1 = [Some 1, Some 1]
   \<and> dice_coef pair_batch pair_batch [1, 2] 1 = Inr (Some 1)
   \<and> dice_coef_float64 pair_batch pair_batch [1, 2] 1 = Inl MismatchedTypes"
proof -
  have m1: "set (data pair_batch) \<subseteq> {0, 1}" and m2: "set (data pair_batch) \<subseteq> {0..1}"
    by (simp_all add: pair_batch_def)
  have lo: "1 / 2 ^ 100 \<le> (1::real)" and hi: "(1::real) \<le> 2 ^ 100" by simp_all
  have i: "per_sample_sums (hadamard pair_batch pair_batch) [1, 2] = [2, 0]"
    by (simp add: per_sample_sums_def sample_sums_def sample_def hadamard_def
        axis_flags_def pair_batch_def eval_nat_numeral upt_rec)
  have u: "per_sample_sums (pointwise_sum pair_batch pair_batch) [1, 2] = [4, 0]"
    by (simp add: per_sample_sums_def sample_sums_def sample_def pointwise_sum_def
        axis_flags_def pair_batch_def eval_nat_numeral upt_rec)
  have sc: "per_sample_scores pair_batch pair_batch [1, 2] 1 = [Some 1, Some 1]"
    by (simp add: per_sample_scores_def sample_scores_def sample_sums_def sample_def hadamard_def
        pointwise_sum_def fdiv_def axis_flags_def pair_batch_def eval_nat_numeral upt_rec)
  have v: "spec_soft_overlap_score pair_batch pair_batch [1, 2] 1 = Some 1"
    unfolding spec_soft_overlap_score_def sc by (simp add: mean_score_def fdiv_def)
  have "dice_coef pair_batch pair_batch [1, 2] 1 = Inr (Some 1)
      \<and> dice_coef_float64 pair_batch pair_batch [1, 2] 1 = Inl MismatchedTypes"
    using soft_overlap_score_formula [OF pair_batch_facts(1) pair_batch_facts(1) refl
        pair_batch_facts(2,3,4) m1 m2 lo hi] to_float32_one v
    by auto
  then show ?thesis
    using pair_batch_facts m1 m2 lo hi to_float32_one i u sc by simp
qed

text \<open>
  C4, as stated: for input arrays whose shapes are not identical, each scoring function
  fails with a shape error. This fails: the functions leave the shapes to the array library,
  which broadcasts. A vector of two ones against a vector of one one is scored 5/4 by
  \<open>calc_dice\<close>.
\<close>

theorem shape_mismatch_counterexample:
  "shape two_ones \<noteq> shape one_one \<and> calc_dice two_ones one_one 1 = Inr (Some (5 / 4))"
  using vector_examples(3) calc_dice_two_one by simp

text \<open>
  C4, amended. For input arrays whose shapes cannot be broadcast together, each scoring
  function (\<open>calc_dice\<close>, \<open>dice_coef\<close>, \<open>dice_coef_loss\<close>,
  \<open>combined_dice_ce_loss\<close>) fails with the array library's error for incompatible shapes
  and returns no value; for shapes that can be broadcast together, identical or not,
  \<open>calc_dice\<close> raises no error.
\<close>

theorem incompatible_shapes_fail:
  "(broadcast_shapes (shape y_true) (shape y_pred) = None \<longrightarrow>
      calc_dice y_true y_pred s = Inl IncompatibleShapes
      \<and> dice_coef y_true y_pred axis s = Inl IncompatibleShapes
      \<and> dice_coef_loss y_true y_pred axis s = Inl IncompatibleShapes
      \<and> combined_dice_ce_loss binary_crossentropy y_true y_pred axis s w = Inl IncompatibleShapes)
   \<and> (broadcast_shapes (shape y_true) (shape y_pred) \<noteq> None \<longrightarrow>
        (\<exists>v. calc_dice y_true y_pred s = Inr v))"
  using scoring_incompatible [of y_true y_pred] calc_dice_compatible [of y_true y_pred]
  by auto

text \<open>Vectors of length 2 and 3 cannot be broadcast together; vectors of length 2 and 1 can.\<close>

theorem incompatible_shapes_fail_witness:
  "broadcast_shapes (shape two_ones) (shape three_ones) = None
   \<and> calc_dice two_ones three_ones 1 = Inl IncompatibleShapes
   \<and> dice_coef two_ones three_ones [1, 2] 1 = Inl IncompatibleShapes
   \<and> dice_coef_loss two_ones three_ones [1, 2] 1 = Inl IncompatibleShapes
   \<and> combined_dice_ce_loss fixed_crossentropy two_ones three_ones [1, 2] 1 (9 / 10)
        = Inl IncompatibleShapes
   \<and> broadcast_shapes (shape two_ones) (shape one_one) = Some [2]
   \<and> (\<exists>v. calc_dice two_ones one_one 1 = Inr v)"
  using incompatible_shapes_fail [of two_ones three_ones 1 "[1, 2]" fixed_crossentropy "9 / 10"]
    incompatible_shapes_fail [of two_ones one_one 1 "[1, 2]" fixed_crossentropy "9 / 10"]
    vector_examples
  by simp

text \<open>
  C5, as stated: for all arrays of equal shape, all reduction axes and every smoothing,
  \<open>combined_dice_ce_loss\<close> (blended_loss) with weight 0 equals the cross-entropy. This
  fails where the Dice loss has no finite value: the product of weight 0 and the Dice loss
  is still computed. On empty masks the Dice loss is not a number with smoothing 0, and
  also with the positive smoothing 2^-200, which is 0 as a 32-bit float, and so is the
  blended loss; with the axes (1, 2) on arrays of two axes the Dice loss raises, and so
  does the blended loss.
\<close>

theorem blended_loss_counterexample:
  "fixed_crossentropy empty_pred empty_pred = Inr \<lparr>shape = [2, 2], data = [1/2, 1/4, 1/4, 1/2]\<rparr>
   \<and> combined_dice_ce_loss fixed_crossentropy empty_pred empty_pred [1, 2] 0 0 = Inr None
   \<and> (0::real) < 1 / 2 ^ 200
   \<and> combined_dice_ce_loss fixed_crossentropy empty_pred empty_pred [1, 2] (1 / 2 ^ 200) 0 = Inr None
   \<and> fixed_crossentropy square_mask square_mask = Inr \<lparr>shape = [2, 2], data = [1/2, 1/4, 1/4, 1/2]\<rparr>
   \<and> combined_dice_ce_loss fixed_crossentropy square_mask square_mask [1, 2] 1 0 = Inl InvalidAxis"
  using loss_zero_smoothing loss_underflow_smoothing loss_rank_two
  by (simp add: combined_dice_ce_loss_def and_then_def fixed_crossentropy_def)

text \<open>
  C5, amended. Where the cross-entropy returns an array \<open>ce\<close> of finite numbers and
  \<open>dice_coef_loss\<close> returns a finite number \<open>l\<close>, \<open>combined_dice_ce_loss\<close>
  with weight 1 is the array of the shape of \<open>ce\<close> whose every element is \<open>l\<close>,
  and with weight 0 it is \<open>ce\<close>. Where \<open>dice_coef_loss\<close> raises an error,
  \<open>combined_dice_ce_loss\<close> raises the same error, and where \<open>dice_coef_loss\<close> is
  infinite or not a number, \<open>combined_dice_ce_loss\<close> has no finite value either: both
  for every weight, 0 and 1 included.
\<close>

theorem blended_loss_extremes:
  assumes "binary_crossentropy y_true y_pred = Inr ce" and "well_shaped ce"
  shows "combined_dice_ce_loss binary_crossentropy y_true y_pred axis s 1 =
           (case dice_coef_loss y_true y_pred axis s of
              Inl e \<Rightarrow> Inl e
            | Inr None \<Rightarrow> Inr None
            | Inr (Some l) \<Rightarrow> Inr (Some \<lparr>shape = shape ce, data = map (\<lambda>x. l) (data ce)\<rparr>))
       \<and> combined_dice_ce_loss binary_crossentropy y_true y_pred axis s 0 =
           (case dice_coef_loss y_true y_pred axis s of
              Inl e \<Rightarrow> Inl e
            | Inr None \<Rightarrow> Inr None
            | Inr (Some l) \<Rightarrow> Inr (Some ce))
       \<and> (\<forall>e. dice_coef_loss y_true y_pred axis s = Inl e \<longrightarrow>
             combined_dice_ce_loss binary_crossentropy y_true y_pred axis s weight = Inl e)
       \<and> (dice_coef_loss y_true y_pred axis s = Inr None \<longrightarrow>
             combined_dice_ce_loss binary_crossentropy y_true y_pred axis s weight = Inr None)"
proof -
  have one: "to_float32 (1 - 1) = Some 0" and zero: "to_float32 (1 - 0) = Some 1"
    using to_float32_zero to_float32_one by simp_all
  have w1: "combined_dice_ce_loss binary_crossentropy y_true y_pred axis s 1 =
      (case dice_coef_loss y_true y_pred axis s of
         Inl e \<Rightarrow> Inl e
       | Inr None \<Rightarrow> Inr None
       | Inr (Some l) \<Rightarrow> Inr (Some \<lparr>shape = shape ce, data = map (\<lambda>x. l) (data ce)\<rparr>))"
    unfolding combined_cases [of binary_crossentropy y_true y_pred ce 1 1 0, OF assms to_float32_one one]
    by (simp split: sum.splits option.splits)
  have w0: "combined_dice_ce_loss binary_crossentropy y_true y_pred axis s 0 =
      (case dice_coef_loss y_true y_pred axis s of
         Inl e \<Rightarrow> Inl e
       | Inr None \<Rightarrow> Inr None
       | Inr (Some l) \<Rightarrow> Inr (Some ce))"
    unfolding combined_cases [of binary_crossentropy y_true y_pred ce 0 0 1, OF assms to_float32_zero zero]
    by (simp split: sum.splits option.splits)
  have err: "\<forall>e. dice_coef_loss y_true y_pred axis s = Inl e \<longrightarrow>
      combined_dice_ce_loss binary_crossentropy y_true y_pred axis s weight = Inl e"
    using combined_propagates(1) by blast
  have nan: "dice_coef_loss y_true y_pred axis s = Inr None \<longrightarrow>
      combined_dice_ce_loss binary_crossentropy y_true y_pred axis s weight = Inr None"
    using combined_propagates(2) [of y_true y_pred axis s binary_crossentropy ce weight] assms(1)
    by blast
  show ?thesis using w1 w0 err nan by blast
qed

text \<open>The overlapping pair of batches, with Dice loss -log 4 + log (11/2), at the weights 1
  and 0; the empty masks with smoothing 0 and the arrays of two axes at the weight 9/10.\<close>

theorem blended_loss_extremes_witness:
  "fixed_crossentropy partial_truth partial_pred = Inr \<lparr>shape = [2, 2], data = [1/2, 1/4, 1/4, 1/2]\<rparr>
   \<and> well_shaped \<lparr>shape = [2, 2], data = [1/2, 1/4, 1/4, 1/2]\<rparr>
   \<and> dice_coef_loss partial_truth partial_pred [1, 2] 1 = Inr (Some (- ln 4 + ln (11 / 2)))
   \<and> combined_dice_ce_loss fixed_crossentropy partial_truth partial_pred [1, 2] 1 1 =
        Inr (Some \<lparr>shape = [2, 2],
                   data = [- ln 4 + ln (11 / 2), - ln 4 + ln (11 / 2),
                           - ln 4 + ln (11 / 2), - ln 4 + ln (11 / 2)]\<rparr>)
   \<and> combined_dice_ce_loss fixed_crossentropy partial_truth partial_pred [1, 2] 1 0 =
        Inr (Some \<lparr>shape = [2, 2], data = [1/2, 1/4, 1/4, 1/2]\<rparr>)
   \<and> dice_coef_loss empty_pred empty_pred [1, 2] 0 = Inr None
   \<and> combined_dice_ce_loss fixed_crossentropy empty_pred empty_pred [1, 2] 0 (9 / 10) = Inr None
   \<and> dice_coef_loss square_mask square_mask [1, 2] 1 = Inl InvalidAxis
   \<and> combined_dice_ce_loss fixed_crossentropy square_mask square_mask [1, 2] 1 (9 / 10)
        = Inl InvalidAxis"
  using blended_loss_extremes [of fixed_crossentropy partial_truth partial_pred
      "\<lparr>shape = [2, 2], data = [1/2, 1/4, 1/4, 1/2]\<rparr>" "[1, 2]" 1 "9 / 10",
      OF fixed_crossentropy_value]
    blended_loss_extremes [of fixed_crossentropy empty_pred empty_pred
      "\<lparr>shape = [2, 2], data = [1/2, 1/4, 1/4, 1/2]\<rparr>" "[1, 2]" 0 "9 / 10",
      OF fixed_crossentropy_value]
    blended_loss_extremes [of fixed_crossentropy square_mask square_mask
      "\<lparr>shape = [2, 2], data = [1/2, 1/4, 1/4, 1/2]\<rparr>" "[1, 2]" 1 "9 / 10",
      OF fixed_crossentropy_value]
    fixed_crossentropy_value(1) [of partial_truth partial_pred] fixed_crossentropy_value(2)
    loss_partial loss_zero_smoothing loss_rank_two
  by simp




text \<open>
  C7. \<open>calc_dice\<close> (hard_overlap_score) gives the same result when its two masks are
  exchanged, for every smoothing; so the call \<open>calc_dice(pred_mask, msk)\<close> of
  \<open>predict\<close>, which passes the prediction first, scores as the call with the ground truth
  first does. This holds for every pair of arrays, of equal shape or not.
\<close>

theorem hard_overlap_score_symmetric:
  "calc_dice a b s = calc_dice b a s
   \<and> predict_dice_score pred_mask msk = calc_dice msk pred_mask 1"
  using calc_dice_commute [of a b s] calc_dice_commute [of pred_mask msk 1]
  by (simp add: predict_dice_score_def)

text \<open>The empty prediction against the square mask, in the order of \<open>predict\<close>.\<close>

theorem hard_overlap_score_symmetric_witness:
  "calc_dice zero_mask square_mask 1 = calc_dice square_mask zero_mask 1
   \<and> predict_dice_score zero_mask square_mask = calc_dice square_mask zero_mask 1
   \<and> predict_dice_score zero_mask square_mask = Inr (Some (1 / 5))"
proof -
  have "calc_dice zero_mask square_mask 1 = Inr (Some (1 / 5))"
    by (simp add: calc_dice_def elementwise_def broadcast_shapes_def broadcast_to_def pad_shape_def
        square_mask_def zero_mask_def and_then_def np_sum_def fdiv_def eval_nat_numeral)
  then show ?thesis
    using hard_overlap_score_symmetric [of zero_mask square_mask 1 zero_mask square_mask]
    by (simp add: predict_dice_score_def)
qed

text \<open>
  C8, as stated: for every ground-truth mask with entries 0 or 1, every prediction mask with
  entries between 0 and 1 and every smoothing above zero, \<open>calc_dice\<close> returns a value
  above 0 and at most 1. This fails where the two masks have different shapes that
  broadcast: a ground truth of three ones against a prediction of one one scores 7/5.
\<close>

theorem hard_overlap_score_range_counterexample:
  "set (data three_ones) \<subseteq> {0, 1} \<and> set (data one_one) \<subseteq> {0..1} \<and> (0::real) < 1
   \<and> calc_dice three_ones one_one 1 = Inr (Some (7 / 5)) \<and> \<not> (7 / 5 \<le> (1::real))"
  using calc_dice_three_one by (simp add: three_ones_def one_one_def)

text \<open>
  C8, amended. For a ground-truth mask with entries 0 or 1, a prediction mask of the same
  shape with entries between 0 and 1, both of 64-bit floats, and a smoothing of at least
  2^-100, \<open>calc_dice\<close> returns a value above 0 and at most 1, and it returns 1 when the two masks are equal
  (both zero everywhere, or agreeing in every pixel). The converse is not claimed: the
  quotient of two 64-bit floats is 1 also for masks that differ by less than the rounding.
\<close>

theorem hard_overlap_score_range:
  assumes "well_shaped ground_truth" and "well_shaped prediction"
    and "shape ground_truth = shape prediction"
    and "\<forall>x\<in>set (data ground_truth). x = 0 \<or> x = 1"
    and "\<forall>y\<in>set (data prediction). 0 \<le> y \<and> y \<le> 1"
    and "1 / 2 ^ 100 \<le> s"
  shows "\<exists>v. calc_dice ground_truth prediction s = Inr (Some v) \<and> 0 < v \<and> v \<le> 1
           \<and> (ground_truth = prediction \<longrightarrow> v = 1)"
proof -
  let ?xs = "data ground_truth" and ?ys = "data prediction"
  let ?n = "2 * sum_list (map2 (*) ?xs ?ys) + s"
  let ?d = "sum_list ?xs + sum_list ?ys + s"
  have "(0::real) < 1 / 2 ^ 100" by simp
  then have s: "0 < s" using assms(6) by linarith
  have len: "length ?xs = length ?ys" using assms(1-3) by (simp add: well_shaped_def)
  note b = overlap_bound [OF len assms(4) assms(5)]
  have n: "0 < ?n" and d: "0 < ?d" and nd: "?n \<le> ?d" using b s by simp_all
  have val: "calc_dice ground_truth prediction s = Inr (Some (?n / ?d))"
    using calc_dice_same [OF assms(1-3), of s] d by (simp add: fdiv_def)
  have pos: "0 < ?n / ?d" using n d by simp
  have le: "?n / ?d \<le> 1" using nd d by simp
  have one: "?n / ?d = 1" if "ground_truth = prediction"
  proof -
    have "sum_list (map2 (*) ?xs ?ys) = sum_list ?xs" and "sum_list ?ys = sum_list ?xs"
      using that binary_self_product [OF assms(4)] by simp_all
    then have "?n = ?d" by simp
    then show ?thesis using d by simp
  qed
  show ?thesis using val pos le one by blast
qed

text \<open>The square mask scores 1 against itself, and 1/5 against the empty prediction.\<close>

theorem hard_overlap_score_range_witness:
  "well_shaped square_mask \<and> well_shaped zero_mask \<and> shape square_mask = shape zero_mask
   \<and> set (data square_mask) \<subseteq> {0, 1}
   \<and> set (data zero_mask) \<subseteq> {0..1} \<and> 1 / 2 ^ 100 \<le> (1::real)
   \<and> (\<exists>v. calc_dice square_mask zero_mask 1 = Inr (Some v) \<and> 0 < v \<and> v \<le> 1)
   \<and> calc_dice square_mask square_mask 1 = Inr (Some 1)"
proof -
  have w1: "well_shaped square_mask" by (simp add: well_shaped_def square_mask_def)
  have w2: "well_shaped zero_mask" by (simp add: well_shaped_def zero_mask_def)
  have sh: "shape square_mask = shape zero_mask" by (simp add: square_mask_def zero_mask_def)
  have b1: "\<forall>x\<in>set (data square_mask). x = 0 \<or> x = 1" by (simp add: square_mask_def)
  have b2: "\<forall>y\<in>set (data zero_mask). 0 \<le> y \<and> y \<le> 1" by (simp add: zero_mask_def)
  have b3: "\<forall>y\<in>set (data square_mask). 0 \<le> y \<and> y \<le> 1" by (simp add: square_mask_def)
  have s: "1 / 2 ^ 100 \<le> (1::real)" by simp
  have "\<exists>v. calc_dice square_mask zero_mask 1 = Inr (Some v) \<and> 0 < v \<and> v \<le> 1"
    using hard_overlap_score_range [OF w1 w2 sh b1 b2 s] by blast
  moreover have "calc_dice square_mask square_mask 1 = Inr (Some 1)"
    using hard_overlap_score_range [OF w1 w1 refl b1 b3 s] by auto
  moreover have "set (data square_mask) \<subseteq> {0, 1}" by (simp add: square_mask_def)
  moreover have "set (data zero_mask) \<subseteq> {0..1}" by (simp add: zero_mask_def)
  ultimately show ?thesis using w1 w2 sh s by blast
qed




end
